theory Spec2Isabelle
  imports Main
begin

section \<open>Python values used by the automation\<close>

text \<open>
  The exceptions the modelled code paths can see. Every one of them derives from
  Python's \<open>Exception\<close>, so each \<open>except Exception\<close> and each bare \<open>except\<close> catches it.
\<close>

datatype error =
    HTTPError
  | KeyError
  | TypeError
  | AttributeError
  | IndexError
  | IOError
  | UploadError
  | GetFileError
  | Timeout
  | ProcessingFailed
  | GenerateError

text \<open>
  A decoded JSON document, as \<open>response.json()\<close> returns it. An object is an association
  list whose first binding of a key is the one a lookup sees.
\<close>

datatype json =
    JNull
  | JBool bool
  | JNum int
  | JStr string
  | JArr "json list"
  | JObj "(string \<times> json) list"

text \<open>Truth value of a Python object in a condition.\<close>

fun truthy :: "json \<Rightarrow> bool" where
  "truthy JNull = False"
| "truthy (JBool b) = b"
| "truthy (JNum n) = (n \<noteq> 0)"
| "truthy (JStr s) = (s \<noteq> [])"
| "truthy (JArr xs) = (xs \<noteq> [])"
| "truthy (JObj kv) = (kv \<noteq> [])"

text \<open>\<open>d.get(k, default)\<close>: only a dict has the method.\<close>

fun py_get :: "json \<Rightarrow> string \<Rightarrow> json \<Rightarrow> error + json" where
  "py_get (JObj kv) k d = Inr (case map_of kv k of None \<Rightarrow> d | Some v \<Rightarrow> v)"
| "py_get _ k d = Inl AttributeError"

text \<open>\<open>d[k]\<close> with a string key.\<close>

fun py_item :: "json \<Rightarrow> string \<Rightarrow> error + json" where
  "py_item (JObj kv) k = (case map_of kv k of None \<Rightarrow> Inl KeyError | Some v \<Rightarrow> Inr v)"
| "py_item _ k = Inl TypeError"

text \<open>\<open>x[0]\<close>.\<close>

fun py_first :: "json \<Rightarrow> error + json" where
  "py_first (JArr []) = Inl IndexError"
| "py_first (JArr (x # xs)) = Inr x"
| "py_first (JStr []) = Inl IndexError"
| "py_first (JStr (c # cs)) = Inr (JStr [c])"
| "py_first (JObj kv) = Inl KeyError"
| "py_first _ = Inl TypeError"

text \<open>What a \<open>for\<close> loop over the value visits.\<close>

fun py_iter :: "json \<Rightarrow> error + json list" where
  "py_iter (JArr xs) = Inr xs"
| "py_iter (JObj kv) = Inr (map JStr (remdups (map fst kv)))"
| "py_iter (JStr s) = Inr (map (\<lambda>c. JStr [c]) s)"
| "py_iter _ = Inl TypeError"

text \<open>Whether the value can be a member of a \<open>set\<close>.\<close>

fun hashable :: "json \<Rightarrow> bool" where
  "hashable (JArr xs) = False"
| "hashable (JObj kv) = False"
| "hashable _ = True"

section \<open>Persisting an episode: \<open>add_to_notion\<close>\<close>

datatype block =
    Heading1 string
  | Divider
  | Paragraph string

fun block_text :: "block \<Rightarrow> string" where
  "block_text (Heading1 s) = s"
| "block_text Divider = []"
| "block_text (Paragraph s) = s"

text \<open>
  The loop \<open>for i in range(0, len(transcript), 2000)\<close>, started at index \<open>i\<close>; the slice
  \<open>transcript[i:i + 2000]\<close> is \<open>take 2000 (drop i transcript)\<close>.
\<close>

function chunks_from :: "nat \<Rightarrow> string \<Rightarrow> block list" where
  "chunks_from i transcript =
     (if i < length transcript
      then Paragraph (take 2000 (drop i transcript)) # chunks_from (i + 2000) transcript
      else [])"
  by pat_completeness auto
termination
  by (relation "measure (\<lambda>(i, transcript). length transcript - i)") auto

declare chunks_from.simps [simp del]


text \<open>The body of the create request: the parent database, the four properties, the children.\<close>

record create_data =
  parent_database_id :: string
  prop_Podcast :: string
  prop_Episode :: string
  prop_Date :: string
  prop_Summary :: string
  children :: "block list"

text \<open>
  The effects the automation has on the outside world, in the order it issues them.
  Sleeps are in milliseconds.
\<close>

datatype prompt = SummaryPrompt | TranscriptPrompt

datatype event =
    HttpGet string
  | FileOpen string
  | RemoveFile string
  | UploadFile string
  | GetFile
  | GenerateContent prompt
  | DeleteFile
  | Sleep nat
  | CreatePage create_data
  | AppendChildren json "block list"

fun is_network :: "event \<Rightarrow> bool" where
  "is_network (Sleep ms) = False"
| "is_network (FileOpen p) = False"
| "is_network (RemoveFile p) = False"
| "is_network _ = True"

text \<open>The fields of \<open>self\<close> that the modelled methods read or write.\<close>

record automation =
  notion_token :: string
  notion_database_id :: string
  processed_episodes_cache :: "json set"

text \<open>
  What the document store and the date parser answer during one call of \<open>add_to_notion\<close>:
  \<open>parse_date\<close> is \<open>parser.parse(published).strftime('%Y-%m-%d')\<close> (\<open>None\<close> when it raises),
  \<open>today\<close> is \<open>datetime.now().strftime('%Y-%m-%d')\<close>, \<open>create_page\<close> is the decoded answer
  to the POST (\<open>None\<close> when the POST, \<open>raise_for_status\<close> or \<open>json()\<close> raises), and
  \<open>append_ok b\<close> tells whether the PATCH of batch number \<open>b\<close> passes \<open>raise_for_status\<close>.
\<close>

record notion_env =
  parse_date :: "string \<Rightarrow> string option"
  today :: string
  create_page :: "json option"
  append_ok :: "nat \<Rightarrow> bool"

text \<open>
  The loop \<open>for i in range(0, len(remaining), 100)\<close>, started at index \<open>i\<close>. A failing PATCH
  raises, so no later batch is sent.
\<close>

function append_batches ::
  "(nat \<Rightarrow> bool) \<Rightarrow> json \<Rightarrow> block list \<Rightarrow> nat \<Rightarrow> event list \<times> (error + unit)" where
  "append_batches ok page_id remaining i =
     (if i < length remaining
      then (let batch = take 100 (drop i remaining) in
            if ok (i div 100)
            then (case append_batches ok page_id remaining (i + 100) of
                    (evs, r) \<Rightarrow> (AppendChildren page_id batch # Sleep 300 # evs, r))
            else ([AppendChildren page_id batch], Inl HTTPError))
      else ([], Inr ()))"
  by pat_completeness auto
termination
  by (relation "measure (\<lambda>(ok, page_id, remaining, i). length remaining - i)") auto

declare append_batches.simps [simp del]

definition trim_summary :: "string \<Rightarrow> string" where
  "trim_summary summary =
     (if length summary > 2000 then take 1997 summary @ ''...'' else summary)"

definition initial_blocks :: "block list \<Rightarrow> block list" where
  "initial_blocks chunks = [Heading1 ''Full Transcript'', Divider] @ take 98 chunks"

definition make_create_data ::
  "automation \<Rightarrow> notion_env \<Rightarrow> string \<Rightarrow> string \<Rightarrow> string \<Rightarrow> string \<Rightarrow> string \<Rightarrow> create_data" where
  "make_create_data self env podcast_name title published summary transcript =
     \<lparr> parent_database_id = notion_database_id self,
       prop_Podcast = podcast_name,
       prop_Episode = title,
       prop_Date = (case parse_date env published of Some d \<Rightarrow> d | None \<Rightarrow> today env),
       prop_Summary = trim_summary summary,
       children = initial_blocks (chunks_from 0 transcript) \<rparr>"

text \<open>
  \<open>add_to_notion\<close>: the requests it issues and either the exception it re-raises or the
  page URL it returns.
\<close>

definition add_to_notion ::
  "automation \<Rightarrow> notion_env \<Rightarrow> string \<Rightarrow> string \<Rightarrow> string \<Rightarrow> string \<Rightarrow> string
     \<Rightarrow> event list \<times> (error + json)" where
  "add_to_notion self env podcast_name title published summary transcript =
     (let create = CreatePage (make_create_data self env podcast_name title published summary transcript) in
      case create_page env of
        None \<Rightarrow> ([create], Inl HTTPError)
      | Some page \<Rightarrow>
          (case py_item page ''id'' of
             Inl e \<Rightarrow> ([create], Inl e)
           | Inr page_id \<Rightarrow>
               (case py_get page ''url'' (JStr []) of
                  Inl e \<Rightarrow> ([create], Inl e)
                | Inr page_url \<Rightarrow>
                    (case append_batches (append_ok env) page_id (drop 98 (chunks_from 0 transcript)) 0 of
                       (evs, Inl e) \<Rightarrow> (create # evs, Inl e)
                     | (evs, Inr u) \<Rightarrow> (create # evs, Inr page_url)))))"

text \<open>The number of blocks a request carries.\<close>

fun request_blocks :: "event \<Rightarrow> nat" where
  "request_blocks (CreatePage d) = length (children d)"
| "request_blocks (AppendChildren page_id batch) = length batch"
| "request_blocks _ = 0"

fun is_create :: "event \<Rightarrow> bool" where
  "is_create (CreatePage d) = True"
| "is_create _ = False"

fun appended_blocks :: "event \<Rightarrow> block list" where
  "appended_blocks (AppendChildren page_id batch) = batch"
| "appended_blocks _ = []"

section \<open>Loading the ledger: \<open>load_processed_episodes_from_notion\<close>\<close>

text \<open>
  The inner \<open>try\<close> of the loop over the records of a page: \<open>Inr (Some title)\<close> when the
  record yields a title that is added to the set, \<open>Inr None\<close> when its \<open>rich_text\<close> is
  absent or empty, \<open>Inl e\<close> when an expression of the block raises. Adding an unhashable
  value to a set raises \<open>TypeError\<close>.
\<close>

definition page_title :: "json \<Rightarrow> error + json option" where
  "page_title page =
     (case py_item page ''properties'' of
        Inl e \<Rightarrow> Inl e
      | Inr properties \<Rightarrow>
          (case py_get properties ''Episode'' (JObj []) of
             Inl e \<Rightarrow> Inl e
           | Inr episode_prop \<Rightarrow>
               (case py_get episode_prop ''rich_text'' JNull of
                  Inl e \<Rightarrow> Inl e
                | Inr rich_text \<Rightarrow>
                    if truthy rich_text
                    then (case py_first rich_text of
                            Inl e \<Rightarrow> Inl e
                          | Inr first \<Rightarrow>
                              (case py_item first ''text'' of
                                 Inl e \<Rightarrow> Inl e
                               | Inr text \<Rightarrow>
                                   (case py_item text ''content'' of
                                      Inl e \<Rightarrow> Inl e
                                    | Inr title \<Rightarrow>
                                        if hashable title then Inr (Some title)
                                        else Inl TypeError)))
                    else Inr None)))"

text \<open>One round of the loop over the records: the bare \<open>except: pass\<close> drops any error.\<close>

definition scan_page :: "json \<Rightarrow> json set \<Rightarrow> json set" where
  "scan_page page all_titles =
     (case page_title page of
        Inr (Some title) \<Rightarrow> insert title all_titles
      | Inr None \<Rightarrow> all_titles
      | Inl e \<Rightarrow> all_titles)"

text \<open>The request body: the cursor is sent only when it is truthy.\<close>

definition query_body :: "json \<Rightarrow> json" where
  "query_body start_cursor =
     (if truthy start_cursor then JObj [(''start_cursor'', start_cursor)] else JObj [])"

text \<open>
  What the loop body does with a decoded answer: the new set, \<open>has_more\<close> and the next
  cursor, or the exception that leaves the loop.
\<close>

definition page_step :: "json \<Rightarrow> json set \<Rightarrow> error + (json set \<times> json \<times> json)" where
  "page_step data all_titles =
     (case py_get data ''results'' (JArr []) of
        Inl e \<Rightarrow> Inl e
      | Inr results \<Rightarrow>
          (case py_iter results of
             Inl e \<Rightarrow> Inl e
           | Inr pages \<Rightarrow>
               (case py_get data ''has_more'' (JBool False) of
                  Inl e \<Rightarrow> Inl e
                | Inr has_more \<Rightarrow>
                    (case py_get data ''next_cursor'' JNull of
                       Inl e \<Rightarrow> Inl e
                     | Inr next_cursor \<Rightarrow>
                         Inr (fold scan_page pages all_titles, has_more, next_cursor)))))"

text \<open>
  The document store as the loader sees it: \<open>post n body\<close> is the decoded answer to the
  request number \<open>n\<close> (from 0) of the call, \<open>None\<close> when \<open>requests.post\<close>, \<open>raise_for_status\<close>
  or \<open>json()\<close> raises. The \<open>while has_more\<close> loop has no bound of its own, so a store
  that always answers with a truthy \<open>has_more\<close> keeps it running: the loop is a partial
  function and \<open>None\<close> is the run that never returns.
\<close>

partial_function (option) query_loop ::
  "(nat \<Rightarrow> json \<Rightarrow> json option) \<Rightarrow> nat \<Rightarrow> json set \<Rightarrow> json \<Rightarrow> (error + json set) option" where
  "query_loop post n all_titles start_cursor =
     (case post n (query_body start_cursor) of
        None \<Rightarrow> Some (Inl HTTPError)
      | Some data \<Rightarrow>
          (case page_step data all_titles of
             Inl e \<Rightarrow> Some (Inl e)
           | Inr (all_titles', has_more, next_cursor) \<Rightarrow>
               if truthy has_more
               then query_loop post (Suc n) all_titles' next_cursor
               else Some (Inr all_titles')))"

text \<open>The method: the outer \<open>except Exception\<close> returns a fresh empty set.\<close>

definition load_processed_episodes_from_notion ::
  "automation \<Rightarrow> (nat \<Rightarrow> json \<Rightarrow> json option) \<Rightarrow> (error + json set) option" where
  "load_processed_episodes_from_notion self post =
     (case query_loop post 0 {} JNull of
        None \<Rightarrow> None
      | Some (Inl e) \<Rightarrow> Some (Inr {})
      | Some (Inr all_titles) \<Rightarrow> Some (Inr all_titles))"

text \<open>
  The loop state after \<open>k\<close> answers were read and each asked for more: the titles
  accumulated so far and the cursor of the next request.
\<close>

fun pages_read :: "(nat \<Rightarrow> json \<Rightarrow> json option) \<Rightarrow> nat \<Rightarrow> (json set \<times> json) option" where
  "pages_read post 0 = Some ({}, JNull)"
| "pages_read post (Suc k) =
     (case pages_read post k of
        None \<Rightarrow> None
      | Some (all_titles, start_cursor) \<Rightarrow>
          (case post k (query_body start_cursor) of
             None \<Rightarrow> None
           | Some data \<Rightarrow>
               (case page_step data all_titles of
                  Inl e \<Rightarrow> None
                | Inr (all_titles', has_more, next_cursor) \<Rightarrow>
                    if truthy has_more then Some (all_titles', next_cursor) else None)))"

text \<open>The request made in that state fails: it raises, or its answer makes the loop body raise.\<close>

definition request_fails :: "(nat \<Rightarrow> json \<Rightarrow> json option) \<Rightarrow> nat \<Rightarrow> json set \<Rightarrow> json \<Rightarrow> bool" where
  "request_fails post k all_titles start_cursor =
     (case post k (query_body start_cursor) of
        None \<Rightarrow> True
      | Some data \<Rightarrow> (case page_step data all_titles of Inl e \<Rightarrow> True | Inr r \<Rightarrow> False))"

section \<open>Transcription: \<open>transcribe_with_retry\<close>\<close>

text \<open>
  \<open>str.strip()\<close> removes the whitespace at both ends; \<open>py_isspace\<close> is \<open>str.isspace\<close> on
  the code points below 256.
\<close>

definition py_isspace :: "char \<Rightarrow> bool" where
  "py_isspace c =
     (let n = (of_char c :: nat)
      in (9 \<le> n \<and> n \<le> 13) \<or> (28 \<le> n \<and> n \<le> 32) \<or> n = 133 \<or> n = 160)"

definition strip :: "string \<Rightarrow> string" where
  "strip s = rev (dropWhile py_isspace (rev (dropWhile py_isspace s)))"

text \<open>
  What the transcription service does during one attempt: the state name of the file
  \<open>upload_file\<close> returns (\<open>None\<close> when the upload raises), the answers to the \<open>get_file\<close>
  calls the polling loop gets to make (the state name, \<open>None\<close> when the call raises), and
  the \<open>text\<close> of the two generated answers (\<open>None\<close> when \<open>generate_content\<close> or \<open>text\<close>
  raises). The clock is the environment's: the loop's check \<open>time.time() - start_time > 600\<close>
  holds exactly when the file is still \<open>PROCESSING\<close> and the scripted polls are used up.
  What \<open>delete_file\<close> does is not part of the script: the code drops its outcome.
\<close>

record attempt_script =
  upload_file :: "string option"
  polls :: "string option list"
  summary_text :: "string option"
  transcript_text :: "string option"

text \<open>The loop \<open>while gemini_file.state.name == "PROCESSING"\<close>.\<close>

fun poll_loop :: "string \<Rightarrow> string option list \<Rightarrow> event list \<times> (error + string)" where
  "poll_loop state_name [] =
     (if state_name = ''PROCESSING'' then ([], Inl Timeout) else ([], Inr state_name))"
| "poll_loop state_name (p # ps) =
     (if state_name = ''PROCESSING''
      then (case p of
              None \<Rightarrow> ([Sleep 5000, GetFile], Inl GetFileError)
            | Some state_name' \<Rightarrow>
                (case poll_loop state_name' ps of
                   (evs, r) \<Rightarrow> (Sleep 5000 # GetFile # evs, r)))
      else ([], Inr state_name))"

text \<open>
  The \<open>try\<close> block of one attempt up to the generated texts: the effects, whether
  \<open>gemini_file\<close> was bound, and the exception raised or the pair the attempt returns.
\<close>

definition run_attempt ::
  "attempt_script \<Rightarrow> string \<Rightarrow> event list \<times> bool \<times> (error + string \<times> string)" where
  "run_attempt genai audio_file =
     (case upload_file genai of
        None \<Rightarrow> ([UploadFile audio_file], False, Inl UploadError)
      | Some state_name \<Rightarrow>
          (case poll_loop state_name (polls genai) of
             (evs, Inl e) \<Rightarrow> (UploadFile audio_file # evs, True, Inl e)
           | (evs, Inr state_name') \<Rightarrow>
               if state_name' = ''FAILED''
               then (UploadFile audio_file # evs, True, Inl ProcessingFailed)
               else (case summary_text genai of
                       None \<Rightarrow>
                         (UploadFile audio_file # evs @ [GenerateContent SummaryPrompt],
                          True, Inl GenerateError)
                     | Some summary \<Rightarrow>
                         (case transcript_text genai of
                            None \<Rightarrow>
                              (UploadFile audio_file # evs
                                 @ [GenerateContent SummaryPrompt, GenerateContent TranscriptPrompt],
                               True, Inl GenerateError)
                          | Some transcript \<Rightarrow>
                              (UploadFile audio_file # evs
                                 @ [GenerateContent SummaryPrompt, GenerateContent TranscriptPrompt],
                               True, Inr (strip summary, transcript))))))"

text \<open>
  The loop \<open>for attempt in range(max_retries)\<close> from index \<open>attempt\<close> on; \<open>genai i\<close> is
  the script of attempt \<open>i\<close>. A loop that runs out without returning makes the method
  return \<open>None\<close>.
\<close>

function retry_loop ::
  "(nat \<Rightarrow> attempt_script) \<Rightarrow> string \<Rightarrow> nat \<Rightarrow> nat
     \<Rightarrow> event list \<times> (error + (string \<times> string) option)" where
  "retry_loop genai audio_file max_retries attempt =
     (if attempt < max_retries
      then (case run_attempt (genai attempt) audio_file of
              (evs, gemini_file, Inr result) \<Rightarrow> (evs @ [DeleteFile], Inr (Some result))
            | (evs, gemini_file, Inl e) \<Rightarrow>
                (let cleanup = (if gemini_file then [DeleteFile] else [])
                 in if attempt < max_retries - 1
                    then (case retry_loop genai audio_file max_retries (Suc attempt) of
                            (evs', r) \<Rightarrow> (evs @ cleanup @ Sleep (60000 * 2 ^ attempt) # evs', r))
                    else (evs @ cleanup, Inl e)))
      else ([], Inr None))"
  by pat_completeness auto
termination
  by (relation "measure (\<lambda>(genai, audio_file, max_retries, attempt). max_retries - attempt)") auto

declare retry_loop.simps [simp del]

definition transcribe_with_retry ::
  "(nat \<Rightarrow> attempt_script) \<Rightarrow> string \<Rightarrow> nat \<Rightarrow> event list \<times> (error + (string \<times> string) option)" where
  "transcribe_with_retry genai audio_file max_retries = retry_loop genai audio_file max_retries 0"

text \<open>The outcome of one attempt, and the number of uploads in a trace.\<close>

definition attempt_outcome :: "attempt_script \<Rightarrow> string \<Rightarrow> error + string \<times> string" where
  "attempt_outcome genai audio_file = snd (snd (run_attempt genai audio_file))"

fun is_upload :: "event \<Rightarrow> bool" where
  "is_upload (UploadFile p) = True"
| "is_upload _ = False"

definition uploads :: "event list \<Rightarrow> nat" where
  "uploads evs = length (filter is_upload evs)"

section \<open>Processing one episode: \<open>process_episode\<close>\<close>

text \<open>
  A feed entry as the method reads it: the \<open>title\<close> and \<open>published\<close> keys (\<open>None\<close> when
  the key is missing), the \<open>enclosures\<close> and \<open>links\<close> attributes (\<open>None\<close> when \<open>hasattr\<close>
  is false). An enclosure is its \<open>href\<close> attribute, \<open>None\<close> when it has none; a link is a
  dict with optional \<open>type\<close> and \<open>href\<close> keys.
\<close>

record link =
  link_type :: "string option"
  link_href :: "string option"

record feed_entry =
  entry_title :: "string option"
  entry_published :: "string option"
  enclosures :: "string option list option"
  links :: "link list option"

text \<open>\<open>str.lower()\<close> on the code points below 256, and the substring test \<open>sub in s\<close>.\<close>

definition lower_char :: "char \<Rightarrow> char" where
  "lower_char c =
     (let n = (of_char c :: nat)
      in if (65 \<le> n \<and> n \<le> 90) \<or> (192 \<le> n \<and> n \<le> 222 \<and> n \<noteq> 215)
         then char_of (n + 32) else c)"

fun py_in_str :: "string \<Rightarrow> string \<Rightarrow> bool" where
  "py_in_str sub [] = (sub = [])"
| "py_in_str sub (c # cs) = (take (length sub) (c # cs) = sub \<or> py_in_str sub cs)"

text \<open>The loop over \<open>entry.links\<close>: the first link with an audio type decides, whatever its \<open>href\<close>.\<close>

fun first_audio_link :: "link list \<Rightarrow> string option" where
  "first_audio_link [] = None"
| "first_audio_link (l # ls) =
     (if py_in_str ''audio'' (map lower_char (case link_type l of None \<Rightarrow> [] | Some t \<Rightarrow> t))
      then link_href l
      else first_audio_link ls)"

definition audio_url_of :: "feed_entry \<Rightarrow> error + string option" where
  "audio_url_of entry =
     (case enclosures entry of
        Some (e # es) \<Rightarrow> (case e of None \<Rightarrow> Inl AttributeError | Some href \<Rightarrow> Inr (Some href))
      | Some [] \<Rightarrow> (case links entry of None \<Rightarrow> Inr None | Some ls \<Rightarrow> Inr (first_audio_link ls))
      | None \<Rightarrow> (case links entry of None \<Rightarrow> Inr None | Some ls \<Rightarrow> Inr (first_audio_link ls)))"

text \<open>\<open>entry.get('title', 'Unknown')\<close>, the deduplication key.\<close>

definition episode_identity :: "feed_entry \<Rightarrow> string" where
  "episode_identity entry = (case entry_title entry of None \<Rightarrow> ''Unknown'' | Some t \<Rightarrow> t)"

text \<open>\<open>str\<close> of a natural number and the name \<open>f"temp_{int(time.time())}.mp3"\<close>.\<close>

fun str_nat :: "nat \<Rightarrow> string" where
  "str_nat n =
     (if n < 10 then [char_of (48 + n)] else str_nat (n div 10) @ [char_of (48 + n mod 10)])"

declare str_nat.simps [simp del]

definition temp_path :: "nat \<Rightarrow> string" where
  "temp_path now = ''temp_'' @ str_nat now @ ''.mp3''"

text \<open>
  How the download goes: \<open>requests.get\<close> raises, \<open>raise_for_status\<close> raises, \<open>open\<close>
  raises (no file is created), writing the stream raises (the file exists), or the
  whole body is written.
\<close>

datatype download = GetRaises | StatusRaises | OpenRaises | StreamRaises | Downloaded

text \<open>
  The world of one call: the clock reading, the download, the transcription service, the
  document store, and whether \<open>os.remove\<close> succeeds.
\<close>

record episode_env =
  clock :: nat
  download :: download
  gemini :: "nat \<Rightarrow> attempt_script"
  store :: notion_env
  remove_ok :: bool

text \<open>
  What a call leaves behind: its effects in order, the value it returns, the object
  \<open>self\<close> and the set of files that exist.
\<close>

record outcome =
  effects :: "event list"
  returned :: bool
  self_after :: automation
  files_after :: "string set"

text \<open>The \<open>try\<close> block with its \<open>except Exception\<close> handler, which returns \<open>False\<close>.\<close>

definition episode_try ::
  "automation \<Rightarrow> episode_env \<Rightarrow> string set \<Rightarrow> string \<Rightarrow> feed_entry \<Rightarrow> outcome" where
  "episode_try self env files podcast_name entry =
     (let title = episode_identity entry;
          path = temp_path (clock env);
          failed = (\<lambda>evs fs. \<lparr> effects = evs, returned = False, self_after = self, files_after = fs \<rparr>)
      in case audio_url_of entry of
           Inl e \<Rightarrow> failed [] files
         | Inr None \<Rightarrow> failed [] files
         | Inr (Some audio_url) \<Rightarrow>
             if audio_url = [] then failed [] files
             else (case download env of
                     GetRaises \<Rightarrow> failed [HttpGet audio_url] files
                   | StatusRaises \<Rightarrow> failed [HttpGet audio_url] files
                   | OpenRaises \<Rightarrow> failed [HttpGet audio_url, FileOpen path] files
                   | StreamRaises \<Rightarrow> failed [HttpGet audio_url, FileOpen path] (insert path files)
                   | Downloaded \<Rightarrow>
                       (case transcribe_with_retry (gemini env) path 5 of
                          (tevs, Inl e) \<Rightarrow>
                            failed (HttpGet audio_url # FileOpen path # tevs) (insert path files)
                        | (tevs, Inr None) \<Rightarrow>
                            failed (HttpGet audio_url # FileOpen path # tevs) (insert path files)
                        | (tevs, Inr (Some (summary, transcript))) \<Rightarrow>
                            (case add_to_notion self (store env) podcast_name title
                                    (case entry_published entry of None \<Rightarrow> [] | Some d \<Rightarrow> d)
                                    summary transcript of
                               (nevs, Inl e) \<Rightarrow>
                                 failed (HttpGet audio_url # FileOpen path # tevs @ nevs)
                                   (insert path files)
                             | (nevs, Inr page_url) \<Rightarrow>
                                 \<lparr> effects = HttpGet audio_url # FileOpen path # tevs @ nevs,
                                   returned = True,
                                   self_after = self \<lparr> processed_episodes_cache :=
                                     insert (JStr title) (processed_episodes_cache self) \<rparr>,
                                   files_after = insert path files \<rparr>))))"

text \<open>
  The method: the ledger check, the \<open>try\<close> block, and the \<open>finally\<close> clause, which
  removes the temporary file when it exists and drops a failure of the removal.
\<close>

definition process_episode ::
  "automation \<Rightarrow> episode_env \<Rightarrow> string set \<Rightarrow> string \<Rightarrow> feed_entry \<Rightarrow> outcome" where
  "process_episode self env files podcast_name entry =
     (if JStr (episode_identity entry) \<in> processed_episodes_cache self
      then \<lparr> effects = [], returned = False, self_after = self, files_after = files \<rparr>
      else (let path = temp_path (clock env);
                body = episode_try self env files podcast_name entry
            in if path \<in> files_after body
               then body \<lparr> effects := effects body @ [RemoveFile path],
                           files_after := (if remove_ok env then files_after body - {path}
                                           else files_after body) \<rparr>
               else body))"

section \<open>Concrete runs\<close>

definition ex_self :: automation where
  "ex_self = \<lparr> notion_token = ''secret'', notion_database_id = ''db'',
               processed_episodes_cache = {} \<rparr>"

definition ex_page :: json where
  "ex_page = JObj [(''id'', JStr ''page1''), (''url'', JStr ''https://notion.example/page1'')]"

definition ex_notion :: notion_env where
  "ex_notion = \<lparr> parse_date = (\<lambda>s. None), today = ''2024-01-01'',
                 create_page = Some ex_page, append_ok = (\<lambda>b. True) \<rparr>"

text \<open>
  A store with one page of three records (a well-formed one, one without \<open>properties\<close>,
  one whose \<open>Episode\<close> has no text) that announces a second page and then fails, and one
  that answers the second request too.
\<close>

definition ex_record :: "string \<Rightarrow> json" where
  "ex_record t =
     JObj [(''properties'',
        JObj [(''Episode'',
           JObj [(''rich_text'', JArr [JObj [(''text'', JObj [(''content'', JStr t)])]])])])]"

definition ex_first_page :: json where
  "ex_first_page =
     JObj [(''results'',
             JArr [ex_record ''Episode A'', JObj [(''object'', JStr ''page'')],
                   JObj [(''properties'', JObj [(''Episode'', JObj [(''rich_text'', JArr [])])])]]),
           (''has_more'', JBool True),
           (''next_cursor'', JStr ''c1'')]"

definition ex_second_page :: json where
  "ex_second_page =
     JObj [(''results'', JArr [ex_record ''Episode B'']),
           (''has_more'', JBool False),
           (''next_cursor'', JNull)]"

definition ex_post_failing :: "nat \<Rightarrow> json \<Rightarrow> json option" where
  "ex_post_failing n body = (if n = 0 then Some ex_first_page else None)"

definition ex_post_complete :: "nat \<Rightarrow> json \<Rightarrow> json option" where
  "ex_post_complete n body =
     (if n = 0 then Some ex_first_page
      else if n = 1 \<and> body = JObj [(''start_cursor'', JStr ''c1'')] then Some ex_second_page
      else None)"

text \<open>
  An attempt whose file ends in state \<open>FAILED\<close>, an attempt that yields both texts, a
  service that fails four attempts before it succeeds, and one that always fails.
\<close>

definition ex_failing_attempt :: attempt_script where
  "ex_failing_attempt =
     \<lparr> upload_file = Some ''PROCESSING'', polls = [Some ''PROCESSING'', Some ''FAILED''],
       summary_text = None, transcript_text = None \<rparr>"

definition ex_good_attempt :: attempt_script where
  "ex_good_attempt =
     \<lparr> upload_file = Some ''PROCESSING'', polls = [Some ''ACTIVE''],
       summary_text = Some '' A summary. '', transcript_text = Some ''Speaker 1: hello'' \<rparr>"

definition ex_genai_late :: "nat \<Rightarrow> attempt_script" where
  "ex_genai_late i = (if i < 4 then ex_failing_attempt else ex_good_attempt)"

definition ex_genai_never :: "nat \<Rightarrow> attempt_script" where
  "ex_genai_never i = ex_failing_attempt"

text \<open>
  An entry with an enclosure, the same entry without a title, a world in which every
  step succeeds, and one whose transcript needs an append request that the store refuses.
\<close>

definition ex_entry :: feed_entry where
  "ex_entry =
     \<lparr> entry_title = Some ''Episode 1'', entry_published = Some ''2024-01-01'',
       enclosures = Some [Some ''https://cdn.example/ep1.mp3''], links = None \<rparr>"

definition ex_titleless :: feed_entry where
  "ex_titleless = ex_entry \<lparr> entry_title := None \<rparr>"

definition ex_env :: episode_env where
  "ex_env =
     \<lparr> clock = 1700000000, download = Downloaded, gemini = (\<lambda>i. ex_good_attempt),
       store = ex_notion, remove_ok = True \<rparr>"

definition ex_env_partial :: episode_env where
  "ex_env_partial =
     ex_env \<lparr> gemini := (\<lambda>i. ex_good_attempt \<lparr> transcript_text := Some (replicate 196001 CHR ''a'') \<rparr>),
              store := ex_notion \<lparr> append_ok := (\<lambda>b. False) \<rparr>,
              remove_ok := False \<rparr>"

section \<open>Chunking\<close>

lemma chunks_from_concat:
  "concat (map block_text (chunks_from i transcript)) = drop i transcript"
proof (induction i transcript rule: chunks_from.induct)
  case (1 i transcript)
  show ?case
  proof (cases "i < length transcript")
    case True
    have "take 2000 (drop i transcript) @ drop 2000 (drop i transcript) = drop i transcript"
      by (rule append_take_drop_id)
    then have "take 2000 (drop i transcript) @ drop (i + 2000) transcript = drop i transcript"
      by (simp add: add.commute)
    with True 1 show ?thesis
      by (subst chunks_from.simps) simp
  next
    case False
    then show ?thesis
      by (subst chunks_from.simps) simp
  qed
qed

lemma ceil_step:
  fixes d :: nat
  assumes "0 < d"
  shows "Suc ((d - 2000 + 1999) div 2000) = (d + 1999) div 2000"
proof (cases "2000 \<le> d")
  case True
  then have "d + 1999 = (d - 2000 + 1999) + 2000" by simp
  then have "(d + 1999) div 2000 = ((d - 2000 + 1999) + 2000) div 2000" by simp
  also have "\<dots> = Suc ((d - 2000 + 1999) div 2000)" by (simp only: div_add_self2)
  finally show ?thesis by simp
next
  case False
  with assms have "(d + 1999) div 2000 = 1" by simp
  with False show ?thesis by simp
qed

lemma chunks_from_length:
  "length (chunks_from i transcript) = (length transcript - i + 1999) div 2000"
proof (induction i transcript rule: chunks_from.induct)
  case (1 i transcript)
  show ?case
  proof (cases "i < length transcript")
    case True
    then have "chunks_from i transcript =
        Paragraph (take 2000 (drop i transcript)) # chunks_from (i + 2000) transcript"
      by (subst chunks_from.simps) simp
    moreover have "length transcript - (i + 2000) = length transcript - i - 2000" by simp
    moreover from True have "0 < length transcript - i" by simp
    ultimately show ?thesis using 1 [OF True] ceil_step [of "length transcript - i"]
      by (simp del: diff_diff_left)
  next
    case False
    then have "chunks_from i transcript = []"
      by (subst chunks_from.simps) simp
    with False show ?thesis by simp
  qed
qed

lemma chunks_from_nth:
  "k < length (chunks_from i transcript) \<Longrightarrow>
   chunks_from i transcript ! k = Paragraph (take 2000 (drop (i + 2000 * k) transcript))"
proof (induction i transcript arbitrary: k rule: chunks_from.induct)
  case (1 i transcript)
  show ?case
  proof (cases "i < length transcript")
    case True
    then have unf: "chunks_from i transcript =
        Paragraph (take 2000 (drop i transcript)) # chunks_from (i + 2000) transcript"
      by (subst chunks_from.simps) simp
    show ?thesis
    proof (cases k)
      case 0
      with unf show ?thesis by simp
    next
      case (Suc j)
      with "1.prems" unf have "j < length (chunks_from (i + 2000) transcript)" by simp
      from "1.IH" [OF True this] Suc unf show ?thesis by (simp add: algebra_simps)
    qed
  next
    case False
    then have "chunks_from i transcript = []"
      by (subst chunks_from.simps) simp
    with "1.prems" show ?thesis by simp
  qed
qed

lemma chunks_from_full:
  assumes "Suc k < length (chunks_from 0 transcript)"
  shows "length (block_text (chunks_from 0 transcript ! k)) = 2000"
proof -
  from assms have "Suc k < (length transcript + 1999) div 2000"
    by (simp add: chunks_from_length)
  then have "2000 * k + 2000 \<le> length transcript" by arith
  moreover from assms have "k < length (chunks_from 0 transcript)" by simp
  ultimately show ?thesis by (simp add: chunks_from_nth)
qed

lemma chunks_from_last:
  assumes "chunks_from 0 transcript \<noteq> []"
  shows "0 < length (block_text (last (chunks_from 0 transcript)))
       \<and> length (block_text (last (chunks_from 0 transcript))) \<le> 2000"
proof -
  let ?n = "length (chunks_from 0 transcript)"
  from assms have pos: "0 < ?n" by simp
  have n: "?n = (length transcript + 1999) div 2000" by (simp add: chunks_from_length)
  have "last (chunks_from 0 transcript) = chunks_from 0 transcript ! (?n - 1)"
    using assms by (rule last_conv_nth)
  also have "\<dots> = Paragraph (take 2000 (drop (2000 * (?n - 1)) transcript))"
    using pos by (simp add: chunks_from_nth)
  finally have l: "block_text (last (chunks_from 0 transcript)) =
      take 2000 (drop (2000 * (?n - 1)) transcript)" by simp
  from pos n have "2000 * (?n - 1) < length transcript" by arith
  with l show ?thesis by simp
qed

lemma chunks_from_empty: "chunks_from 0 [] = []"
  by (subst chunks_from.simps) simp

lemma chunks_from_replicate:
  "chunks_from 0 (replicate n c) =
     map (\<lambda>k. Paragraph (replicate (min 2000 (n - 2000 * k)) c)) [0..<(n + 1999) div 2000]"
  by (rule nth_equalityI) (simp_all add: chunks_from_length chunks_from_nth)

text \<open>
  C1. Splitting a transcript into segments of 2000 units and joining the segments in order
  gives the transcript back; every segment but the last has exactly 2000 units, the last
  has between 1 and 2000; the empty transcript has no segment. This is for every length,
  so for the lengths 0, 1, 1999, 2000, 2001 and 500000 too.
\<close>

theorem chunk_round_trip:
  "concat (map block_text (chunks_from 0 transcript)) = transcript
   \<and> (\<forall>k. Suc k < length (chunks_from 0 transcript)
          \<longrightarrow> length (block_text (chunks_from 0 transcript ! k)) = 2000)
   \<and> (chunks_from 0 transcript \<noteq> []
          \<longrightarrow> 0 < length (block_text (last (chunks_from 0 transcript)))
            \<and> length (block_text (last (chunks_from 0 transcript))) \<le> 2000)
   \<and> length (chunks_from 0 transcript) = (length transcript + 1999) div 2000
   \<and> chunks_from 0 [] = []"
  using chunks_from_concat [of 0 transcript] chunks_from_full [of _ transcript]
    chunks_from_last [of transcript] chunks_from_length [of 0 transcript] chunks_from_empty
  by simp

theorem chunk_round_trip_witness:
  "chunks_from 0 (replicate 2001 CHR ''a'')
     = [Paragraph (replicate 2000 CHR ''a''), Paragraph ''a'']
   \<and> concat (map block_text (chunks_from 0 (replicate 2001 CHR ''a''))) = replicate 2001 CHR ''a''
   \<and> Suc 0 < length (chunks_from 0 (replicate 2001 CHR ''a''))
   \<and> length (block_text (chunks_from 0 (replicate 2001 CHR ''a'') ! 0)) = 2000
   \<and> chunks_from 0 (replicate 2001 CHR ''a'') \<noteq> []
   \<and> length (block_text (last (chunks_from 0 (replicate 2001 CHR ''a'')))) \<le> 2000"
proof -
  have c: "chunks_from 0 (replicate 2001 CHR ''a'')
      = [Paragraph (replicate 2000 CHR ''a''), Paragraph ''a'']"
    by (simp add: chunks_from_replicate upt_rec [of 0] upt_rec [of "Suc 0"] upt_rec [of 2])
  show ?thesis
    using chunk_round_trip [of "replicate 2001 CHR ''a''"] c by simp
qed

section \<open>The two-phase writer\<close>

lemma append_batches_done:
  "length remaining \<le> i \<Longrightarrow> append_batches ok page_id remaining i = ([], Inr ())"
  by (subst append_batches.simps) simp

lemma append_batches_bound:
  "e \<in> set (fst (append_batches ok page_id remaining i))
     \<Longrightarrow> \<not> is_create e \<and> request_blocks e \<le> 100"
proof (induction ok page_id remaining i rule: append_batches.induct)
  case (1 ok page_id remaining i)
  show ?case
  proof (cases "i < length remaining \<and> ok (i div 100)")
    case True
    obtain evs r where rec: "append_batches ok page_id remaining (i + 100) = (evs, r)"
      by (cases "append_batches ok page_id remaining (i + 100)")
    with True have unf: "append_batches ok page_id remaining i =
        (AppendChildren page_id (take 100 (drop i remaining)) # Sleep 300 # evs, r)"
      by (subst append_batches.simps) simp
    from "1.prems" unf have
      "e = AppendChildren page_id (take 100 (drop i remaining)) \<or> e = Sleep 300 \<or> e \<in> set evs"
      by simp
    then show ?thesis
    proof (elim disjE)
      assume "e \<in> set evs"
      with rec have "e \<in> set (fst (append_batches ok page_id remaining (i + 100)))" by simp
      with True "1.IH" [OF _ refl] show ?thesis by simp
    qed simp_all
  next
    case False
    then have "fst (append_batches ok page_id remaining i) = []
        \<or> fst (append_batches ok page_id remaining i)
             = [AppendChildren page_id (take 100 (drop i remaining))]"
      by (subst (1 2) append_batches.simps) (simp add: Let_def)
    with "1.prems" show ?thesis by auto
  qed
qed

lemma append_batches_all:
  "snd (append_batches ok page_id remaining i) = Inr ()
     \<Longrightarrow> concat (map appended_blocks (fst (append_batches ok page_id remaining i)))
           = drop i remaining"
proof (induction ok page_id remaining i rule: append_batches.induct)
  case (1 ok page_id remaining i)
  show ?case
  proof (cases "i < length remaining")
    case False
    then show ?thesis by (simp add: append_batches_done)
  next
    case lt: True
    show ?thesis
    proof (cases "ok (i div 100)")
      case True
      obtain evs r where rec: "append_batches ok page_id remaining (i + 100) = (evs, r)"
        by (cases "append_batches ok page_id remaining (i + 100)")
      with lt True have unf: "append_batches ok page_id remaining i =
          (AppendChildren page_id (take 100 (drop i remaining)) # Sleep 300 # evs, r)"
        by (subst append_batches.simps) simp
      with "1.prems" have "r = Inr ()" by simp
      with rec "1.IH" [OF lt refl True] have "concat (map appended_blocks evs) = drop (i + 100) remaining"
        by simp
      moreover have "take 100 (drop i remaining) @ drop 100 (drop i remaining) = drop i remaining"
        by (rule append_take_drop_id)
      ultimately show ?thesis using unf by (simp add: add.commute)
    next
      case False
      with lt have "append_batches ok page_id remaining i =
          ([AppendChildren page_id (take 100 (drop i remaining))], Inl HTTPError)"
        by (subst append_batches.simps) simp
      with "1.prems" show ?thesis by simp
    qed
  qed
qed

lemma add_to_notion_events:
  "\<exists>evs. fst (add_to_notion self env podcast_name title published summary transcript)
      = CreatePage (make_create_data self env podcast_name title published summary transcript) # evs
    \<and> (evs = [] \<or> (\<exists>page_id. evs = fst (append_batches (append_ok env) page_id
                                  (drop 98 (chunks_from 0 transcript)) 0)))"
  by (auto simp: add_to_notion_def Let_def split: option.splits sum.splits prod.splits)
    (metis fst_conv)+

lemma append_batches_all_events:
  "append_batches ok page_id remaining i = (evs, Inr u)
     \<Longrightarrow> concat (map appended_blocks evs) = drop i remaining"
  using append_batches_all [of ok page_id remaining i] by simp

lemma append_batches_prefix:
  "\<exists>rest. concat (map appended_blocks (fst (append_batches ok page_id remaining i))) @ rest
      = drop i remaining"
proof (induction ok page_id remaining i rule: append_batches.induct)
  case (1 ok page_id remaining i)
  have split: "take 100 (drop i remaining) @ drop (i + 100) remaining = drop i remaining"
    using append_take_drop_id [of 100 "drop i remaining"] by (simp add: add.commute)
  show ?case
  proof (cases "i < length remaining")
    case False
    then show ?thesis by (simp add: append_batches_done)
  next
    case lt: True
    show ?thesis
    proof (cases "ok (i div 100)")
      case True
      obtain evs r where rec: "append_batches ok page_id remaining (i + 100) = (evs, r)"
        by (cases "append_batches ok page_id remaining (i + 100)")
      with lt True have unf: "append_batches ok page_id remaining i =
          (AppendChildren page_id (take 100 (drop i remaining)) # Sleep 300 # evs, r)"
        by (subst append_batches.simps) simp
      from rec "1.IH" [OF lt refl True] obtain rest where
        "concat (map appended_blocks evs) @ rest = drop (i + 100) remaining" by auto
      with split unf have
        "concat (map appended_blocks (fst (append_batches ok page_id remaining i))) @ rest
           = drop i remaining" by simp
      then show ?thesis ..
    next
      case False
      with lt have "append_batches ok page_id remaining i =
          ([AppendChildren page_id (take 100 (drop i remaining))], Inl HTTPError)"
        by (subst append_batches.simps) simp
      with split show ?thesis by auto
    qed
  qed
qed

lemma last_chunk_196001:
  "drop 98 (chunks_from 0 (replicate 196001 c)) = [Paragraph [c]]"
proof -
  have "drop 98 [0..<99] = [98]"
    by (simp add: upt_rec [of 98])
  then show ?thesis
    by (simp add: chunks_from_replicate drop_map del: drop_upt)
qed

lemma append_one_batch:
  "append_batches (\<lambda>b. True) page_id [x] 0 = ([AppendChildren page_id [x], Sleep 300], Inr ())"
  by (subst append_batches.simps) (simp add: append_batches_done)

lemma ex_append_run:
  "add_to_notion ex_self ex_notion podcast_name title published summary (replicate 196001 c)
     = ([CreatePage (make_create_data ex_self ex_notion podcast_name title published summary
                       (replicate 196001 c)),
         AppendChildren (JStr ''page1'') [Paragraph [c]], Sleep 300],
        Inr (JStr ''https://notion.example/page1''))"
  by (simp add: add_to_notion_def ex_notion_def ex_page_def last_chunk_196001 append_one_batch)

text \<open>
  C3. The create request carries the header block, the divider block and at most 98
  leading transcript segments, so at most 100 blocks; every later request of the call is
  an append of at most 100 blocks (or the pause after it).
\<close>

theorem requests_within_block_limit:
  "\<exists>d evs. fst (add_to_notion self env podcast_name title published summary transcript)
              = CreatePage d # evs
     \<and> children d = Heading1 ''Full Transcript'' # Divider # take 98 (chunks_from 0 transcript)
     \<and> length (take 98 (chunks_from 0 transcript)) \<le> 98
     \<and> length (children d) \<le> 100
     \<and> (\<forall>e \<in> set evs. \<not> is_create e \<and> request_blocks e \<le> 100)"
proof -
  obtain evs where
    evs: "fst (add_to_notion self env podcast_name title published summary transcript)
      = CreatePage (make_create_data self env podcast_name title published summary transcript) # evs"
    and tail: "evs = [] \<or> (\<exists>page_id. evs = fst (append_batches (append_ok env) page_id
                                  (drop 98 (chunks_from 0 transcript)) 0))"
    using add_to_notion_events by blast
  from tail have "\<forall>e \<in> set evs. \<not> is_create e \<and> request_blocks e \<le> 100"
    using append_batches_bound by auto
  with evs show ?thesis
    by (simp add: make_create_data_def initial_blocks_def)
qed

theorem requests_within_block_limit_witness:
  "AppendChildren (JStr ''page1'') [Paragraph ''a'']
     \<in> set (fst (add_to_notion ex_self ex_notion ''Pod'' ''Ep'' [] ''s'' (replicate 196001 CHR ''a'')))
   \<and> request_blocks (AppendChildren (JStr ''page1'') [Paragraph ''a'']) \<le> 100
   \<and> length (children (make_create_data ex_self ex_notion ''Pod'' ''Ep'' [] ''s''
         (replicate 196001 CHR ''a''))) \<le> 100"
  using requests_within_block_limit
    [of ex_self ex_notion "''Pod''" "''Ep''" "[]" "''s''" "replicate 196001 CHR ''a''"]
  by (auto simp: ex_append_run)

text \<open>
  C5. A summary longer than 2000 units is persisted as its first 1997 units followed by
  the three-unit marker \<open>...\<close>, 2000 units in all; a summary of 2500 units is one such.
\<close>

theorem long_summary_truncated:
  "2000 < length summary \<Longrightarrow>
     \<exists>d evs. fst (add_to_notion self env podcast_name title published summary transcript)
                = CreatePage d # evs
       \<and> prop_Summary d = take 1997 summary @ ''...''
       \<and> length (take 1997 summary) = 1997
       \<and> length ''...'' = 3
       \<and> length (prop_Summary d) = 2000"
  using add_to_notion_events [of self env podcast_name title published summary transcript]
  by (auto simp: make_create_data_def trim_summary_def)

theorem long_summary_truncated_witness:
  "2000 < length (replicate 2500 CHR ''s'')
   \<and> (\<exists>d evs. fst (add_to_notion ex_self ex_notion ''Pod'' ''Ep'' [] (replicate 2500 CHR ''s'') ''hello'')
                = CreatePage d # evs
       \<and> prop_Summary d = replicate 1997 CHR ''s'' @ ''...''
       \<and> length (prop_Summary d) = 2000)"
  using long_summary_truncated
    [of "replicate 2500 CHR ''s''" ex_self ex_notion "''Pod''" "''Ep''" "[]" "''hello''"]
  by simp

text \<open>
  C10. A transcript of at most 196000 units, which is one of at most 98 segments, is
  persisted by the create request alone: no append request is issued. Whatever the
  transcript, the blocks of the append requests are, in order, segments from the 99th
  on, and all of them when the call returns a URL.
\<close>

theorem short_transcript_single_create:
  "(length (chunks_from 0 transcript) \<le> 98 \<longleftrightarrow> length transcript \<le> 196000)
   \<and> (length transcript \<le> 196000 \<longrightarrow>
        fst (add_to_notion self env podcast_name title published summary transcript)
          = [CreatePage (make_create_data self env podcast_name title published summary transcript)])
   \<and> (\<exists>rest. concat (map appended_blocks
                 (fst (add_to_notion self env podcast_name title published summary transcript))) @ rest
              = drop 98 (chunks_from 0 transcript))
   \<and> (\<forall>url. snd (add_to_notion self env podcast_name title published summary transcript) = Inr url
         \<longrightarrow> concat (map appended_blocks
                 (fst (add_to_notion self env podcast_name title published summary transcript)))
              = drop 98 (chunks_from 0 transcript))"
proof (intro conjI impI allI)
  show c: "length (chunks_from 0 transcript) \<le> 98 \<longleftrightarrow> length transcript \<le> 196000"
    by (simp add: chunks_from_length) arith
  {
    assume "length transcript \<le> 196000"
    with c have "length (drop 98 (chunks_from 0 transcript)) \<le> 0" by simp
    then have "append_batches (append_ok env) page_id (drop 98 (chunks_from 0 transcript)) 0
        = ([], Inr ())" for page_id
      by (rule append_batches_done)
    then show "fst (add_to_notion self env podcast_name title published summary transcript)
          = [CreatePage (make_create_data self env podcast_name title published summary transcript)]"
      by (simp add: add_to_notion_def Let_def split: option.splits sum.splits)
  }
  show "\<exists>rest. concat (map appended_blocks
                 (fst (add_to_notion self env podcast_name title published summary transcript))) @ rest
              = drop 98 (chunks_from 0 transcript)"
    using add_to_notion_events [of self env podcast_name title published summary transcript]
      append_batches_prefix [of "append_ok env" _ "drop 98 (chunks_from 0 transcript)" 0]
    by auto
  {
    fix url
    assume "snd (add_to_notion self env podcast_name title published summary transcript) = Inr url"
    then show "concat (map appended_blocks
                 (fst (add_to_notion self env podcast_name title published summary transcript)))
              = drop 98 (chunks_from 0 transcript)"
      by (auto simp: add_to_notion_def Let_def dest: append_batches_all_events
            split: option.splits sum.splits prod.splits)
  }
qed

theorem short_transcript_single_create_witness:
  "length ''hello'' \<le> 196000
   \<and> fst (add_to_notion ex_self ex_notion ''Pod'' ''Ep'' [] ''s'' ''hello'')
       = [CreatePage (make_create_data ex_self ex_notion ''Pod'' ''Ep'' [] ''s'' ''hello'')]
   \<and> snd (add_to_notion ex_self ex_notion ''Pod'' ''Ep'' [] ''s'' (replicate 196001 CHR ''a''))
       = Inr (JStr ''https://notion.example/page1'')
   \<and> concat (map appended_blocks
         (fst (add_to_notion ex_self ex_notion ''Pod'' ''Ep'' [] ''s'' (replicate 196001 CHR ''a''))))
       = drop 98 (chunks_from 0 (replicate 196001 CHR ''a''))"
  using short_transcript_single_create [of "''hello''" ex_self ex_notion "''Pod''" "''Ep''" "[]" "''s''"]
    short_transcript_single_create
      [of "replicate 196001 CHR ''a''" ex_self ex_notion "''Pod''" "''Ep''" "[]" "''s''"]
  by (simp add: ex_append_run)

section \<open>The ledger load\<close>

lemma ex_first_step:
  "page_step ex_first_page {} = Inr ({JStr ''Episode A''}, JBool True, JStr ''c1'')"
  by (simp add: page_step_def ex_first_page_def ex_record_def scan_page_def page_title_def)

lemma query_loop_fail:
  "request_fails post n all_titles start_cursor
     \<Longrightarrow> \<exists>e. query_loop post n all_titles start_cursor = Some (Inl e)"
  by (subst query_loop.simps) (auto simp: request_fails_def split: option.splits sum.splits)

lemma query_loop_last:
  "post n (query_body start_cursor) = Some data
     \<Longrightarrow> page_step data all_titles = Inr (all_titles', has_more, next_cursor)
     \<Longrightarrow> \<not> truthy has_more
     \<Longrightarrow> query_loop post n all_titles start_cursor = Some (Inr all_titles')"
  by (subst query_loop.simps) simp

lemma query_loop_pages_read:
  "pages_read post k = Some (all_titles, start_cursor)
     \<Longrightarrow> query_loop post 0 {} JNull = query_loop post k all_titles start_cursor"
proof (induction k arbitrary: all_titles start_cursor)
  case 0
  then show ?case by simp
next
  case (Suc k)
  from Suc.prems obtain acc cur data has_more where
    prev: "pages_read post k = Some (acc, cur)"
    and ans: "post k (query_body cur) = Some data"
    and step: "page_step data acc = Inr (all_titles, has_more, start_cursor)"
    and more: "truthy has_more"
    by (auto split: option.splits sum.splits if_splits)
  have "query_loop post k acc cur = query_loop post (Suc k) all_titles start_cursor"
    using ans step more by (subst query_loop.simps) simp
  with Suc.IH [OF prev] show ?case by simp
qed

lemma scan_page_skip:
  "page_title page = Inl e \<or> page_title page = Inr None \<Longrightarrow> scan_page page all_titles = all_titles"
  by (auto simp: scan_page_def)

lemma load_never_raises:
  "load_processed_episodes_from_notion self post \<noteq> Some (Inl e)"
  by (simp add: load_processed_episodes_from_notion_def split: option.splits sum.splits)

lemma ex_pages_read:
  "pages_read ex_post_failing 1 = Some ({JStr ''Episode A''}, JStr ''c1'')"
  by (simp add: ex_post_failing_def ex_first_step query_body_def)

lemma ex_pages_read_complete:
  "pages_read ex_post_complete 1 = Some ({JStr ''Episode A''}, JStr ''c1'')"
  by (simp add: ex_post_complete_def ex_first_step query_body_def)

lemma ex_second_step:
  "page_step ex_second_page {JStr ''Episode A''}
     = Inr ({JStr ''Episode A'', JStr ''Episode B''}, JBool False, JNull)"
  by (auto simp: page_step_def ex_second_page_def ex_record_def scan_page_def page_title_def)

lemma ex_complete_load:
  "load_processed_episodes_from_notion ex_self ex_post_complete
     = Some (Inr {JStr ''Episode A'', JStr ''Episode B''})"
proof -
  have "query_loop ex_post_complete 1 {JStr ''Episode A''} (JStr ''c1'')
      = Some (Inr {JStr ''Episode A'', JStr ''Episode B''})"
    by (rule query_loop_last [where has_more = "JBool False" and next_cursor = JNull and data = ex_second_page])
       (simp_all add: ex_post_complete_def query_body_def ex_second_step)
  with query_loop_pages_read [OF ex_pages_read_complete] show ?thesis
    by (simp add: load_processed_episodes_from_notion_def)
qed

lemma load_after_failure:
  assumes "pages_read post k = Some (all_titles, start_cursor)"
    and "request_fails post k all_titles start_cursor"
  shows "load_processed_episodes_from_notion self post = Some (Inr {})"
proof -
  from assms(2) obtain e where "query_loop post k all_titles start_cursor = Some (Inl e)"
    using query_loop_fail by blast
  with query_loop_pages_read [OF assms(1)] show ?thesis
    by (simp add: load_processed_episodes_from_notion_def)
qed

lemma ex_request_fails:
  "request_fails ex_post_failing 1 {JStr ''Episode A''} (JStr ''c1'')"
  by (simp add: request_fails_def ex_post_failing_def)

lemma ex_malformed_record:
  "page_title (JObj [(''object'', JStr ''page'')]) = Inl KeyError"
  by (simp add: page_title_def)

text \<open>
  C2, as the code has it. The load never raises. When a request fails after any number
  of pages were read (the request raises, or its answer makes the loop body raise), the
  handler returns a fresh empty set: the titles accumulated from the pages already read
  are not returned. A record whose identity field is absent or malformed leaves the set
  as it was and the scan goes on with the next record.
\<close>

theorem ledger_load_failure_gives_empty_set:
  "load_processed_episodes_from_notion self post \<noteq> Some (Inl e)
   \<and> (pages_read post k = Some (all_titles, start_cursor)
        \<and> request_fails post k all_titles start_cursor
      \<longrightarrow> load_processed_episodes_from_notion self post = Some (Inr {}))
   \<and> (page_title page = Inl e' \<or> page_title page = Inr None
      \<longrightarrow> fold scan_page (page # pages) titles = fold scan_page pages titles)"
  using load_never_raises [of self post e]
    load_after_failure [of post k all_titles start_cursor self]
    scan_page_skip [of page e' titles]
  by simp

theorem ledger_load_failure_gives_empty_set_witness:
  "pages_read ex_post_failing 1 = Some ({JStr ''Episode A''}, JStr ''c1'')
   \<and> request_fails ex_post_failing 1 {JStr ''Episode A''} (JStr ''c1'')
   \<and> load_processed_episodes_from_notion ex_self ex_post_failing = Some (Inr {})
   \<and> page_title (JObj [(''object'', JStr ''page'')]) = Inl KeyError
   \<and> fold scan_page [JObj [(''object'', JStr ''page'')], ex_record ''Episode A''] {}
       = fold scan_page [ex_record ''Episode A''] {}"
  using ledger_load_failure_gives_empty_set
    [of ex_self ex_post_failing HTTPError 1 "{JStr ''Episode A''}" "JStr ''c1''"
        "JObj [(''object'', JStr ''page'')]" KeyError "[ex_record ''Episode A'']" "{}"]
    ex_pages_read ex_request_fails ex_malformed_record
  by simp

text \<open>
  C2, as the specification words it, fails: after a first page that yields the title
  \<open>Episode A\<close> and announces more, the second request fails, and the load returns the
  empty set, not the set holding \<open>Episode A\<close>.
\<close>

theorem ledger_load_drops_accumulated_titles:
  "pages_read ex_post_failing 1 = Some ({JStr ''Episode A''}, JStr ''c1'')
   \<and> ex_post_failing 1 (query_body (JStr ''c1'')) = None
   \<and> load_processed_episodes_from_notion ex_self ex_post_failing = Some (Inr {})
   \<and> load_processed_episodes_from_notion ex_self ex_post_failing
       \<noteq> Some (Inr {JStr ''Episode A''})"
  using ex_pages_read load_after_failure [OF ex_pages_read ex_request_fails, of ex_self]
  by (simp add: ex_post_failing_def)

section \<open>The retry loop\<close>

lemma uploads_append: "uploads (xs @ ys) = uploads xs + uploads ys"
  by (simp add: uploads_def)

lemma poll_loop_no_upload: "uploads (fst (poll_loop state_name ps)) = 0"
proof (induction ps arbitrary: state_name)
  case Nil
  then show ?case by (simp add: uploads_def)
next
  case (Cons p ps)
  show ?case
  proof (cases p)
    case None
    then show ?thesis by (simp add: uploads_def)
  next
    case (Some state_name')
    obtain evs r where rec: "poll_loop state_name' ps = (evs, r)"
      by (cases "poll_loop state_name' ps")
    with Cons [of state_name'] have "uploads evs = 0" by simp
    with Some rec show ?thesis by (simp add: uploads_def)
  qed
qed

lemma run_attempt_uploads: "uploads (fst (run_attempt genai audio_file)) = 1"
proof -
  have "uploads evs = 0" if "poll_loop state_name (polls genai) = (evs, r)" for state_name evs r
    using poll_loop_no_upload [of state_name "polls genai"] that by simp
  then show ?thesis
    by (auto simp: run_attempt_def uploads_append split: option.splits prod.splits sum.splits)
       (simp_all add: uploads_def)
qed

lemma retry_success:
  assumes "attempt < max_retries"
    and "attempt_outcome (genai attempt) audio_file = Inr result"
  shows "snd (retry_loop genai audio_file max_retries attempt) = Inr (Some result)"
    and "uploads (fst (retry_loop genai audio_file max_retries attempt)) = 1"
proof -
  obtain evs g where r: "run_attempt (genai attempt) audio_file = (evs, g, Inr result)"
    using assms(2) by (cases "run_attempt (genai attempt) audio_file") (simp add: attempt_outcome_def)
  with assms(1) have unf: "retry_loop genai audio_file max_retries attempt
      = (evs @ [DeleteFile], Inr (Some result))"
    by (subst retry_loop.simps) simp
  then show "snd (retry_loop genai audio_file max_retries attempt) = Inr (Some result)" by simp
  from run_attempt_uploads [of "genai attempt" audio_file] r have "uploads evs = 1" by simp
  with unf show "uploads (fst (retry_loop genai audio_file max_retries attempt)) = 1"
    by (simp add: uploads_append) (simp add: uploads_def)
qed

lemma retry_last_failure:
  assumes "attempt < max_retries" and "\<not> attempt < max_retries - 1"
    and "attempt_outcome (genai attempt) audio_file = Inl e"
  shows "snd (retry_loop genai audio_file max_retries attempt) = Inl e"
    and "uploads (fst (retry_loop genai audio_file max_retries attempt)) = 1"
proof -
  obtain evs g where r: "run_attempt (genai attempt) audio_file = (evs, g, Inl e)"
    using assms(3) by (cases "run_attempt (genai attempt) audio_file") (simp add: attempt_outcome_def)
  with assms(1,2) have unf: "retry_loop genai audio_file max_retries attempt
      = (evs @ (if g then [DeleteFile] else []), Inl e)"
    by (subst retry_loop.simps) simp
  then show "snd (retry_loop genai audio_file max_retries attempt) = Inl e" by simp
  from run_attempt_uploads [of "genai attempt" audio_file] r have "uploads evs = 1" by simp
  with unf show "uploads (fst (retry_loop genai audio_file max_retries attempt)) = 1"
    by (simp add: uploads_append) (simp add: uploads_def)
qed

lemma retry_failure_step:
  assumes "attempt < max_retries - 1"
    and "attempt_outcome (genai attempt) audio_file = Inl e"
  shows "snd (retry_loop genai audio_file max_retries attempt)
       = snd (retry_loop genai audio_file max_retries (Suc attempt))"
    and "uploads (fst (retry_loop genai audio_file max_retries attempt))
       = Suc (uploads (fst (retry_loop genai audio_file max_retries (Suc attempt))))"
proof -
  obtain evs g where r: "run_attempt (genai attempt) audio_file = (evs, g, Inl e)"
    using assms(2) by (cases "run_attempt (genai attempt) audio_file") (simp add: attempt_outcome_def)
  obtain evs' res where rec: "retry_loop genai audio_file max_retries (Suc attempt) = (evs', res)"
    by (cases "retry_loop genai audio_file max_retries (Suc attempt)")
  from assms(1) have "attempt < max_retries" by simp
  with assms(1) r rec have unf: "retry_loop genai audio_file max_retries attempt
      = (evs @ (if g then [DeleteFile] else []) @ Sleep (60000 * 2 ^ attempt) # evs', res)"
    by (subst retry_loop.simps) simp
  with rec show "snd (retry_loop genai audio_file max_retries attempt)
       = snd (retry_loop genai audio_file max_retries (Suc attempt))" by simp
  from run_attempt_uploads [of "genai attempt" audio_file] r have "uploads evs = 1" by simp
  with unf rec show "uploads (fst (retry_loop genai audio_file max_retries attempt))
       = Suc (uploads (fst (retry_loop genai audio_file max_retries (Suc attempt))))"
    by (simp add: uploads_append) (simp add: uploads_def)
qed

lemma retry_uploads_bound:
  "uploads (fst (retry_loop genai audio_file max_retries attempt)) \<le> max_retries - attempt"
proof (induction "max_retries - attempt" arbitrary: attempt)
  case 0
  then have "retry_loop genai audio_file max_retries attempt = ([], Inr None)"
    by (subst retry_loop.simps) simp
  then show ?case by (simp add: uploads_def)
next
  case (Suc d)
  then have lt: "attempt < max_retries" by simp
  show ?case
  proof (cases "attempt_outcome (genai attempt) audio_file")
    case (Inr result)
    from retry_success(2) [of attempt max_retries genai audio_file result] lt Inr
    show ?thesis by simp
  next
    case (Inl e)
    show ?thesis
    proof (cases "attempt < max_retries - 1")
      case True
      from Suc.hyps(2) have "d = max_retries - Suc attempt" by simp
      from Suc.hyps(1) [OF this] retry_failure_step(2) [of attempt max_retries genai audio_file e]
        True Inl lt show ?thesis by simp
    next
      case False
      from retry_last_failure(2) [of attempt max_retries genai audio_file e] lt False Inl
      show ?thesis by simp
    qed
  qed
qed

lemma retry_loop_returns_pair:
  "attempt < max_retries
     \<Longrightarrow> snd (retry_loop genai audio_file max_retries attempt) \<noteq> Inr None"
proof (induction "max_retries - attempt" arbitrary: attempt)
  case 0
  then show ?case by simp
next
  case (Suc d)
  show ?case
  proof (cases "attempt_outcome (genai attempt) audio_file")
    case (Inr result)
    from retry_success(1) [of attempt max_retries genai audio_file result] Suc.prems Inr
    show ?thesis by simp
  next
    case (Inl e)
    show ?thesis
    proof (cases "attempt < max_retries - 1")
      case True
      from Suc.hyps(2) have "d = max_retries - Suc attempt" by simp
      moreover from True have "Suc attempt < max_retries" by simp
      ultimately show ?thesis
        using Suc.hyps(1) retry_failure_step(1) [of attempt max_retries genai audio_file e] True Inl
        by simp
    next
      case False
      from retry_last_failure(1) [of attempt max_retries genai audio_file e] Suc.prems False Inl
      show ?thesis by simp
    qed
  qed
qed

lemma retry_skip_failures:
  assumes "\<forall>i. attempt \<le> i \<and> i < j \<longrightarrow> (\<exists>e. attempt_outcome (genai i) audio_file = Inl e)"
    and "attempt \<le> j" and "j < max_retries"
  shows "snd (retry_loop genai audio_file max_retries attempt)
           = snd (retry_loop genai audio_file max_retries j)
       \<and> uploads (fst (retry_loop genai audio_file max_retries attempt))
           = (j - attempt) + uploads (fst (retry_loop genai audio_file max_retries j))"
  using assms
proof (induction "j - attempt" arbitrary: attempt)
  case 0
  then show ?case by simp
next
  case (Suc d)
  from Suc.hyps(2) have lt: "attempt < j" by simp
  with Suc.prems(3) have last: "attempt < max_retries - 1" by simp
  from Suc.prems(1) lt obtain e where e: "attempt_outcome (genai attempt) audio_file = Inl e"
    by auto
  from Suc.hyps(2) have d: "d = j - Suc attempt" by simp
  have "\<forall>i. Suc attempt \<le> i \<and> i < j \<longrightarrow> (\<exists>e. attempt_outcome (genai i) audio_file = Inl e)"
    using Suc.prems(1) by simp
  moreover from lt have "Suc attempt \<le> j" by simp
  ultimately have ih:
    "snd (retry_loop genai audio_file max_retries (Suc attempt))
       = snd (retry_loop genai audio_file max_retries j)
     \<and> uploads (fst (retry_loop genai audio_file max_retries (Suc attempt)))
       = (j - Suc attempt) + uploads (fst (retry_loop genai audio_file max_retries j))"
    using Suc.hyps(1) [OF d] Suc.prems(3) by simp
  from retry_failure_step [of attempt max_retries genai audio_file e] last e ih lt
  show ?case by simp
qed

lemma ex_good: "attempt_outcome ex_good_attempt f = Inr (''A summary.'', ''Speaker 1: hello'')"
proof -
  have sp: "py_isspace CHR '' ''" "\<not> py_isspace CHR ''A''" "\<not> py_isspace CHR ''.''"
    by (simp_all add: py_isspace_def)
  have "strip '' A summary. '' = ''A summary.''"
    by (simp add: strip_def sp)
  then show ?thesis
    by (simp add: attempt_outcome_def run_attempt_def ex_good_attempt_def)
qed

lemma ex_bad: "attempt_outcome ex_failing_attempt f = Inl ProcessingFailed"
  by (simp add: attempt_outcome_def run_attempt_def ex_failing_attempt_def)

text \<open>
  C4. When the first four attempts fail and the fifth succeeds, the call makes exactly
  five uploads and returns the fifth attempt's pair of summary and transcript; when five
  attempts in a row fail, it raises the fifth attempt's exception after exactly five
  uploads; no run makes more than five uploads.
\<close>

theorem five_upload_attempts:
  "((\<forall>i<4. \<exists>e. attempt_outcome (genai i) audio_file = Inl e)
      \<and> attempt_outcome (genai 4) audio_file = Inr result
     \<longrightarrow> snd (transcribe_with_retry genai audio_file 5) = Inr (Some result)
       \<and> uploads (fst (transcribe_with_retry genai audio_file 5)) = 5)
   \<and> ((\<forall>i<5. \<exists>e. attempt_outcome (genai i) audio_file = Inl e)
     \<longrightarrow> (\<exists>e. attempt_outcome (genai 4) audio_file = Inl e
             \<and> snd (transcribe_with_retry genai audio_file 5) = Inl e)
       \<and> uploads (fst (transcribe_with_retry genai audio_file 5)) = 5)
   \<and> uploads (fst (transcribe_with_retry genai audio_file 5)) \<le> 5"
proof (intro conjI impI)
  show "uploads (fst (transcribe_with_retry genai audio_file 5)) \<le> 5"
    using retry_uploads_bound [of genai audio_file 5 0] by (simp add: transcribe_with_retry_def)
next
  assume a: "(\<forall>i<4. \<exists>e. attempt_outcome (genai i) audio_file = Inl e)
      \<and> attempt_outcome (genai 4) audio_file = Inr result"
  then have skip: "snd (retry_loop genai audio_file 5 0) = snd (retry_loop genai audio_file 5 4)
       \<and> uploads (fst (retry_loop genai audio_file 5 0))
           = (4 - 0) + uploads (fst (retry_loop genai audio_file 5 4))"
    by (intro retry_skip_failures) simp_all
  from a retry_success [of 4 5 genai audio_file result]
  have "snd (retry_loop genai audio_file 5 4) = Inr (Some result)"
    and "uploads (fst (retry_loop genai audio_file 5 4)) = 1" by simp_all
  with skip show "snd (transcribe_with_retry genai audio_file 5) = Inr (Some result)"
    and "uploads (fst (transcribe_with_retry genai audio_file 5)) = 5"
    by (simp_all add: transcribe_with_retry_def)
next
  assume a: "\<forall>i<5. \<exists>e. attempt_outcome (genai i) audio_file = Inl e"
  then have skip: "snd (retry_loop genai audio_file 5 0) = snd (retry_loop genai audio_file 5 4)
       \<and> uploads (fst (retry_loop genai audio_file 5 0))
           = (4 - 0) + uploads (fst (retry_loop genai audio_file 5 4))"
    by (intro retry_skip_failures) simp_all
  from a have "\<exists>e. attempt_outcome (genai 4) audio_file = Inl e"
    by (rule allE [where x = 4]) simp
  then obtain e where e: "attempt_outcome (genai 4) audio_file = Inl e" ..
  from e retry_last_failure [of 4 5 genai audio_file e]
  have "snd (retry_loop genai audio_file 5 4) = Inl e"
    and "uploads (fst (retry_loop genai audio_file 5 4)) = 1" by simp_all
  with skip e show "\<exists>e. attempt_outcome (genai 4) audio_file = Inl e
             \<and> snd (transcribe_with_retry genai audio_file 5) = Inl e"
    and "uploads (fst (transcribe_with_retry genai audio_file 5)) = 5"
    by (simp_all add: transcribe_with_retry_def)
qed

theorem five_upload_attempts_witness:
  "attempt_outcome (ex_genai_late 3) ''temp_1.mp3'' = Inl ProcessingFailed
   \<and> attempt_outcome (ex_genai_late 4) ''temp_1.mp3'' = Inr (''A summary.'', ''Speaker 1: hello'')
   \<and> snd (transcribe_with_retry ex_genai_late ''temp_1.mp3'' 5)
       = Inr (Some (''A summary.'', ''Speaker 1: hello''))
   \<and> uploads (fst (transcribe_with_retry ex_genai_late ''temp_1.mp3'' 5)) = 5
   \<and> attempt_outcome (ex_genai_never 4) ''temp_1.mp3'' = Inl ProcessingFailed
   \<and> snd (transcribe_with_retry ex_genai_never ''temp_1.mp3'' 5) = Inl ProcessingFailed
   \<and> uploads (fst (transcribe_with_retry ex_genai_never ''temp_1.mp3'' 5)) = 5"
  using five_upload_attempts
      [of ex_genai_late "''temp_1.mp3''" "(''A summary.'', ''Speaker 1: hello'')"]
    five_upload_attempts [of ex_genai_never "''temp_1.mp3''"]
  by (simp add: ex_genai_late_def ex_genai_never_def ex_good ex_bad)

section \<open>The episode processor\<close>

lemma try_returned_iff:
  "returned (episode_try self env files podcast_name entry) \<longleftrightarrow>
     (\<exists>audio_url. audio_url_of entry = Inr (Some audio_url) \<and> audio_url \<noteq> [])
     \<and> download env = Downloaded
     \<and> (\<exists>summary transcript page_url.
           snd (transcribe_with_retry (gemini env) (temp_path (clock env)) 5)
             = Inr (Some (summary, transcript))
         \<and> snd (add_to_notion self (store env) podcast_name (episode_identity entry)
                  (case entry_published entry of None \<Rightarrow> [] | Some d \<Rightarrow> d) summary transcript)
             = Inr page_url)"
  by (auto simp: episode_try_def Let_def
           split: sum.splits option.splits download.splits prod.splits)

lemma try_self_after:
  "self_after (episode_try self env files podcast_name entry) =
     (if returned (episode_try self env files podcast_name entry)
      then self \<lparr> processed_episodes_cache :=
             insert (JStr (episode_identity entry)) (processed_episodes_cache self) \<rparr>
      else self)"
  by (auto simp: episode_try_def Let_def
           split: sum.splits option.splits download.splits prod.splits)

lemma try_files_after:
  "files_after (episode_try self env files podcast_name entry) = files
   \<or> files_after (episode_try self env files podcast_name entry)
        = insert (temp_path (clock env)) files"
  by (auto simp: episode_try_def Let_def
           split: sum.splits option.splits download.splits prod.splits)

lemma try_ignores_remove_ok:
  "episode_try self (env \<lparr> remove_ok := b \<rparr>) files podcast_name entry
     = episode_try self env files podcast_name entry"
  by (simp add: episode_try_def Let_def
           split: sum.splits option.splits download.splits prod.splits)

lemma process_returned:
  "returned (process_episode self env files podcast_name entry) \<longleftrightarrow>
     JStr (episode_identity entry) \<notin> processed_episodes_cache self
     \<and> returned (episode_try self env files podcast_name entry)"
  by (simp add: process_episode_def Let_def)

lemma process_self_after:
  "self_after (process_episode self env files podcast_name entry) =
     (if JStr (episode_identity entry) \<in> processed_episodes_cache self then self
      else self_after (episode_try self env files podcast_name entry))"
  by (simp add: process_episode_def Let_def)

lemma process_skip:
  "JStr (episode_identity entry) \<in> processed_episodes_cache self \<Longrightarrow>
     process_episode self env files podcast_name entry
       = \<lparr> effects = [], returned = False, self_after = self, files_after = files \<rparr>"
  by (simp add: process_episode_def)


lemma try_effects_notion:
  assumes "audio_url_of entry = Inr (Some audio_url)" and "audio_url \<noteq> []"
    and "download env = Downloaded"
    and "snd (transcribe_with_retry (gemini env) (temp_path (clock env)) 5)
           = Inr (Some (summary, transcript))"
  shows "set (fst (add_to_notion self (store env) podcast_name (episode_identity entry)
                  (case entry_published entry of None \<Rightarrow> [] | Some d \<Rightarrow> d) summary transcript))
           \<subseteq> set (effects (episode_try self env files podcast_name entry))"
  using assms
  by (auto simp: episode_try_def Let_def split: sum.splits option.splits prod.splits)

lemma try_effects_download:
  assumes "audio_url_of entry = Inr (Some audio_url)" and "audio_url \<noteq> []"
  shows "HttpGet audio_url \<in> set (effects (episode_try self env files podcast_name entry))"
  using assms
  by (auto simp: episode_try_def Let_def
           split: sum.splits option.splits download.splits prod.splits)

lemma process_effects:
  "JStr (episode_identity entry) \<notin> processed_episodes_cache self \<Longrightarrow>
     effects (process_episode self env files podcast_name entry)
       = effects (episode_try self env files podcast_name entry)
         @ (if temp_path (clock env) \<in> files_after (episode_try self env files podcast_name entry)
            then [RemoveFile (temp_path (clock env))] else [])"
  by (simp add: process_episode_def Let_def)

lemma process_files_after:
  "JStr (episode_identity entry) \<notin> processed_episodes_cache self \<Longrightarrow>
     files_after (process_episode self env files podcast_name entry)
       = (if remove_ok env
          then files_after (episode_try self env files podcast_name entry) - {temp_path (clock env)}
          else files_after (episode_try self env files podcast_name entry))"
  by (auto simp: process_episode_def Let_def)

lemma add_to_notion_short:
  assumes "length transcript \<le> 196000" and "create_page env = Some page"
    and "py_item page ''id'' = Inr page_id" and "py_get page ''url'' (JStr []) = Inr page_url"
  shows "add_to_notion self env podcast_name title published summary transcript
       = ([CreatePage (make_create_data self env podcast_name title published summary transcript)],
          Inr page_url)"
proof -
  from assms(1) have "length (drop 98 (chunks_from 0 transcript)) \<le> 0"
    by (simp add: chunks_from_length)
  then have "append_batches (append_ok env) page_id (drop 98 (chunks_from 0 transcript)) 0
      = ([], Inr ())"
    by (rule append_batches_done)
  with assms(2-4) show ?thesis
    by (simp add: add_to_notion_def Let_def)
qed

lemma add_to_notion_partial:
  assumes "create_page env = Some page"
    and "py_item page ''id'' = Inr page_id" and "py_get page ''url'' (JStr []) = Inr page_url"
    and "\<not> append_ok env 0"
  shows "add_to_notion self env podcast_name title published summary (replicate 196001 c)
       = ([CreatePage (make_create_data self env podcast_name title published summary
                          (replicate 196001 c)),
           AppendChildren page_id [Paragraph [c]]],
          Inl HTTPError)"
proof -
  from assms(4) have "append_batches (append_ok env) page_id [Paragraph [c]] 0
      = ([AppendChildren page_id [Paragraph [c]]], Inl HTTPError)"
    by (subst append_batches.simps) simp
  with assms(1-3) show ?thesis
    by (simp add: add_to_notion_def Let_def last_chunk_196001)
qed

lemma ex_audio_url:
  "audio_url_of ex_entry = Inr (Some ''https://cdn.example/ep1.mp3'')"
  "audio_url_of ex_titleless = Inr (Some ''https://cdn.example/ep1.mp3'')"
  by (simp_all add: audio_url_of_def ex_entry_def ex_titleless_def)

lemma ex_identity:
  "episode_identity ex_entry = ''Episode 1''" "episode_identity ex_titleless = ''Unknown''"
  by (simp_all add: episode_identity_def ex_entry_def ex_titleless_def)

lemma ex_transcribe:
  "snd (transcribe_with_retry (gemini ex_env) path 5)
     = Inr (Some (''A summary.'', ''Speaker 1: hello''))"
  using retry_success(1) [of 0 5 "\<lambda>i. ex_good_attempt" path] ex_good [of path]
  by (simp add: transcribe_with_retry_def ex_env_def)

lemma ex_transcribe_long:
  "snd (transcribe_with_retry (gemini ex_env_partial) path 5)
     = Inr (Some (''A summary.'', replicate 196001 CHR ''a''))"
proof -
  have sp: "py_isspace CHR '' ''" "\<not> py_isspace CHR ''A''" "\<not> py_isspace CHR ''.''"
    by (simp_all add: py_isspace_def)
  have "strip '' A summary. '' = ''A summary.''"
    by (simp add: strip_def sp)
  then have "attempt_outcome (ex_good_attempt \<lparr> transcript_text := Some (replicate 196001 CHR ''a'') \<rparr>) path
      = Inr (''A summary.'', replicate 196001 CHR ''a'')"
    by (simp add: attempt_outcome_def run_attempt_def ex_good_attempt_def)
  with retry_success(1) [of 0 5
      "\<lambda>i. ex_good_attempt \<lparr> transcript_text := Some (replicate 196001 CHR ''a'') \<rparr>" path]
  show ?thesis
    by (simp add: transcribe_with_retry_def ex_env_partial_def ex_env_def)
qed

lemma ex_persist:
  "add_to_notion self ex_notion podcast_name title published summary ''Speaker 1: hello''
     = ([CreatePage (make_create_data self ex_notion podcast_name title published summary
                       ''Speaker 1: hello'')],
        Inr (JStr ''https://notion.example/page1''))"
  by (rule add_to_notion_short [where page = ex_page and page_id = "JStr ''page1''"])
     (simp_all add: ex_notion_def ex_page_def)

lemma ex_persist_partial:
  "add_to_notion self (store ex_env_partial) podcast_name title published summary
       (replicate 196001 CHR ''a'')
     = ([CreatePage (make_create_data self (store ex_env_partial) podcast_name title published
                       summary (replicate 196001 CHR ''a'')),
         AppendChildren (JStr ''page1'') [Paragraph ''a'']],
        Inl HTTPError)"
  by (rule add_to_notion_partial [where page = ex_page and page_url = "JStr ''https://notion.example/page1''"])
     (simp_all add: ex_env_partial_def ex_env_def ex_notion_def ex_page_def)

lemma ex_try_returned:
  "returned (episode_try ex_self ex_env files podcast_name ex_entry)"
  "returned (episode_try ex_self ex_env files podcast_name ex_titleless)"
  using ex_transcribe [of "temp_path (clock ex_env)"]
  by (simp_all add: try_returned_iff ex_audio_url)
     (simp_all add: ex_env_def ex_persist)

lemma ex_try_partial_not_returned:
  "\<not> returned (episode_try ex_self ex_env_partial files podcast_name ex_entry)"
  using ex_transcribe_long [of "temp_path (clock ex_env_partial)"]
  by (simp add: try_returned_iff ex_persist_partial)

lemma ex_try_partial_files:
  "files_after (episode_try ex_self ex_env_partial files podcast_name ex_entry)
     = insert (temp_path (clock ex_env_partial)) files"
proof -
  obtain tevs where t: "transcribe_with_retry (gemini ex_env_partial) (temp_path (clock ex_env_partial)) 5
      = (tevs, Inr (Some (''A summary.'', replicate 196001 CHR ''a'')))"
    using ex_transcribe_long [of "temp_path (clock ex_env_partial)"]
    by (cases "transcribe_with_retry (gemini ex_env_partial) (temp_path (clock ex_env_partial)) 5") simp
  have d: "download ex_env_partial = Downloaded"
    by (simp add: ex_env_partial_def ex_env_def)
  show ?thesis
    by (simp add: episode_try_def Let_def ex_audio_url t d ex_persist_partial)
qed

text \<open>
  C6. An entry whose identity is in the ledger makes the call return \<open>False\<close> with no
  effect at all: no download, no upload, no request to the document store, and the
  ledger and the files are as before.
\<close>

theorem known_episode_skipped_without_io:
  "JStr (episode_identity entry) \<in> processed_episodes_cache self \<Longrightarrow>
     \<not> returned (process_episode self env files podcast_name entry)
     \<and> effects (process_episode self env files podcast_name entry) = []
     \<and> filter is_network (effects (process_episode self env files podcast_name entry)) = []
     \<and> self_after (process_episode self env files podcast_name entry) = self
     \<and> files_after (process_episode self env files podcast_name entry) = files"
  by (simp add: process_skip)

theorem known_episode_skipped_without_io_witness:
  "JStr (episode_identity ex_entry)
     \<in> processed_episodes_cache (ex_self \<lparr> processed_episodes_cache := {JStr ''Episode 1''} \<rparr>)
   \<and> effects (process_episode (ex_self \<lparr> processed_episodes_cache := {JStr ''Episode 1''} \<rparr>)
                ex_env {} ''Pod'' ex_entry) = []
   \<and> \<not> returned (process_episode (ex_self \<lparr> processed_episodes_cache := {JStr ''Episode 1''} \<rparr>)
                ex_env {} ''Pod'' ex_entry)
   \<and> HttpGet ''https://cdn.example/ep1.mp3''
       \<in> set (effects (process_episode ex_self ex_env {} ''Pod'' ex_entry))"
proof -
  have "JStr (episode_identity ex_entry) \<notin> processed_episodes_cache ex_self"
    by (simp add: ex_self_def)
  then have "HttpGet ''https://cdn.example/ep1.mp3''
       \<in> set (effects (process_episode ex_self ex_env {} ''Pod'' ex_entry))"
    using try_effects_download [of ex_entry "''https://cdn.example/ep1.mp3''" ex_self ex_env "{}" "''Pod''"]
    by (simp add: process_effects ex_audio_url)
  then show ?thesis
    using known_episode_skipped_without_io
      [of ex_entry "ex_self \<lparr> processed_episodes_cache := {JStr ''Episode 1''} \<rparr>" ex_env "{}" "''Pod''"]
    by (simp add: ex_identity)
qed

text \<open>
  C7. The call returns \<open>True\<close> only when the transcription returned a pair and
  \<open>add_to_notion\<close> returned for that pair, and exactly then the identity is added to the
  ledger. When there is no audio URL, the download fails, the transcription raises or
  \<open>add_to_notion\<close> raises (also after a successful create followed by a failing append),
  the call returns \<open>False\<close> and \<open>self\<close>, the ledger with it, is unchanged.
\<close>

theorem ledger_updated_only_after_persistence:
  "(returned (process_episode self env files podcast_name entry) \<longrightarrow>
      (\<exists>summary transcript page_url.
          snd (transcribe_with_retry (gemini env) (temp_path (clock env)) 5)
            = Inr (Some (summary, transcript))
        \<and> snd (add_to_notion self (store env) podcast_name (episode_identity entry)
                 (case entry_published entry of None \<Rightarrow> [] | Some d \<Rightarrow> d) summary transcript)
            = Inr page_url)
      \<and> processed_episodes_cache (self_after (process_episode self env files podcast_name entry))
          = insert (JStr (episode_identity entry)) (processed_episodes_cache self))
   \<and> (\<not> returned (process_episode self env files podcast_name entry) \<longrightarrow>
        self_after (process_episode self env files podcast_name entry) = self)
   \<and> ((\<forall>audio_url. audio_url_of entry = Inr (Some audio_url) \<longrightarrow> audio_url = [])
        \<or> download env \<noteq> Downloaded
        \<or> (\<exists>e. snd (transcribe_with_retry (gemini env) (temp_path (clock env)) 5) = Inl e)
        \<or> (\<exists>summary transcript e.
              snd (transcribe_with_retry (gemini env) (temp_path (clock env)) 5)
                = Inr (Some (summary, transcript))
            \<and> snd (add_to_notion self (store env) podcast_name (episode_identity entry)
                     (case entry_published entry of None \<Rightarrow> [] | Some d \<Rightarrow> d) summary transcript)
                = Inl e)
      \<longrightarrow> \<not> returned (process_episode self env files podcast_name entry)
        \<and> processed_episodes_cache (self_after (process_episode self env files podcast_name entry))
            = processed_episodes_cache self)"
proof -
  have r: "returned (process_episode self env files podcast_name entry) \<longleftrightarrow>
     JStr (episode_identity entry) \<notin> processed_episodes_cache self
     \<and> returned (episode_try self env files podcast_name entry)"
    by (rule process_returned)
  have s: "self_after (process_episode self env files podcast_name entry) =
     (if returned (process_episode self env files podcast_name entry)
      then self \<lparr> processed_episodes_cache :=
             insert (JStr (episode_identity entry)) (processed_episodes_cache self) \<rparr>
      else self)"
    by (simp add: process_self_after try_self_after process_returned)
  show ?thesis
    unfolding s
    by (auto simp: r try_returned_iff)
qed

theorem ledger_updated_only_after_persistence_witness:
  "returned (process_episode ex_self ex_env {} ''Pod'' ex_entry)
   \<and> processed_episodes_cache (self_after (process_episode ex_self ex_env {} ''Pod'' ex_entry))
       = {JStr ''Episode 1''}
   \<and> snd (transcribe_with_retry (gemini ex_env_partial) (temp_path (clock ex_env_partial)) 5)
       = Inr (Some (''A summary.'', replicate 196001 CHR ''a''))
   \<and> add_to_notion ex_self (store ex_env_partial) ''Pod'' ''Episode 1'' ''2024-01-01'' ''A summary.''
         (replicate 196001 CHR ''a'')
       = ([CreatePage (make_create_data ex_self (store ex_env_partial) ''Pod'' ''Episode 1''
                         ''2024-01-01'' ''A summary.'' (replicate 196001 CHR ''a'')),
           AppendChildren (JStr ''page1'') [Paragraph ''a'']],
          Inl HTTPError)
   \<and> \<not> returned (process_episode ex_self ex_env_partial {} ''Pod'' ex_entry)
   \<and> self_after (process_episode ex_self ex_env_partial {} ''Pod'' ex_entry) = ex_self"
proof -
  have fresh: "JStr (episode_identity ex_entry) \<notin> processed_episodes_cache ex_self"
    by (simp add: ex_self_def)
  have ok: "returned (process_episode ex_self ex_env {} ''Pod'' ex_entry)"
    by (simp add: process_returned fresh ex_try_returned)
  have bad: "\<not> returned (process_episode ex_self ex_env_partial {} ''Pod'' ex_entry)"
    by (simp add: process_returned ex_try_partial_not_returned)
  from ok bad show ?thesis
    using ledger_updated_only_after_persistence [of ex_self ex_env "{}" "''Pod''" ex_entry]
      ledger_updated_only_after_persistence [of ex_self ex_env_partial "{}" "''Pod''" ex_entry]
      ex_transcribe_long [of "temp_path (clock ex_env_partial)"]
      ex_persist_partial [of ex_self "''Pod''" "''Episode 1''" "''2024-01-01''" "''A summary.''"]
    by (simp add: ex_identity) (simp add: ex_self_def)
qed

lemma try_created_exists:
  assumes "FileOpen (temp_path (clock env)) \<in> set (effects (episode_try self env files podcast_name entry))"
    and "download env \<noteq> OpenRaises"
  shows "temp_path (clock env) \<in> files_after (episode_try self env files podcast_name entry)"
  using assms
  by (auto simp: episode_try_def Let_def
           split: sum.splits option.splits download.splits prod.splits if_splits)

lemma process_ignores_remove_ok:
  "returned (process_episode self (env \<lparr> remove_ok := b \<rparr>) files podcast_name entry)
     = returned (process_episode self env files podcast_name entry)"
  "self_after (process_episode self (env \<lparr> remove_ok := b \<rparr>) files podcast_name entry)
     = self_after (process_episode self env files podcast_name entry)"
  by (simp_all add: process_returned process_self_after try_ignores_remove_ok)

lemma ex_stream_failure:
  "episode_try ex_self (ex_env \<lparr> download := StreamRaises \<rparr>) {} podcast_name ex_entry
     = \<lparr> effects = [HttpGet ''https://cdn.example/ep1.mp3'', FileOpen (temp_path 1700000000)],
         returned = False, self_after = ex_self, files_after = {temp_path 1700000000} \<rparr>"
  by (simp add: episode_try_def Let_def ex_audio_url ex_env_def)

text \<open>
  C8. On the skip path no file is created and nothing is touched. On every other exit
  path, when the temporary file exists at the end of the \<open>try\<close> block (it does whenever
  the call created it), \<open>os.remove\<close> on it is the last effect of the call, and the file
  is gone when that removal succeeds; so after a call whose removal succeeds the file
  exists only if it is skipped and was there before. Whether the removal succeeds
  changes neither the value returned nor \<open>self\<close>, and no other file is touched.
\<close>

theorem temp_file_removed_on_every_exit:
  "(JStr (episode_identity entry) \<in> processed_episodes_cache self \<longrightarrow>
      effects (process_episode self env files podcast_name entry) = []
      \<and> files_after (process_episode self env files podcast_name entry) = files)
   \<and> (JStr (episode_identity entry) \<notin> processed_episodes_cache self
        \<and> temp_path (clock env) \<in> files_after (episode_try self env files podcast_name entry) \<longrightarrow>
      effects (process_episode self env files podcast_name entry)
        = effects (episode_try self env files podcast_name entry) @ [RemoveFile (temp_path (clock env))])
   \<and> (FileOpen (temp_path (clock env))
          \<in> set (effects (process_episode self env files podcast_name entry))
        \<and> download env \<noteq> OpenRaises \<longrightarrow>
      last (effects (process_episode self env files podcast_name entry))
        = RemoveFile (temp_path (clock env)))
   \<and> (remove_ok env \<and> JStr (episode_identity entry) \<notin> processed_episodes_cache self \<longrightarrow>
      temp_path (clock env) \<notin> files_after (process_episode self env files podcast_name entry))
   \<and> (remove_ok env \<and> temp_path (clock env) \<notin> files \<longrightarrow>
      temp_path (clock env) \<notin> files_after (process_episode self env files podcast_name entry))
   \<and> returned (process_episode self (env \<lparr> remove_ok := b \<rparr>) files podcast_name entry)
       = returned (process_episode self env files podcast_name entry)
   \<and> self_after (process_episode self (env \<lparr> remove_ok := b \<rparr>) files podcast_name entry)
       = self_after (process_episode self env files podcast_name entry)
   \<and> files_after (process_episode self env files podcast_name entry) - {temp_path (clock env)}
       = files - {temp_path (clock env)}"
proof (cases "JStr (episode_identity entry) \<in> processed_episodes_cache self")
  case True
  then show ?thesis
    by (simp add: process_skip process_ignores_remove_ok)
next
  case False
  have created: "temp_path (clock env) \<in> files_after (episode_try self env files podcast_name entry)"
    if "FileOpen (temp_path (clock env))
          \<in> set (effects (process_episode self env files podcast_name entry))"
      and "download env \<noteq> OpenRaises"
    using that try_created_exists [of env self files podcast_name entry]
    by (auto simp: process_effects [OF False] split: if_splits)
  from False try_files_after [of self env files podcast_name entry] show ?thesis
    using created
    by (auto simp: process_effects process_files_after process_ignores_remove_ok)
qed

theorem temp_file_removed_on_every_exit_witness:
  "JStr (episode_identity ex_entry) \<notin> processed_episodes_cache ex_self
   \<and> temp_path (clock (ex_env \<lparr> download := StreamRaises \<rparr>))
       \<in> files_after (episode_try ex_self (ex_env \<lparr> download := StreamRaises \<rparr>) {} ''Pod'' ex_entry)
   \<and> effects (process_episode ex_self (ex_env \<lparr> download := StreamRaises \<rparr>) {} ''Pod'' ex_entry)
       = [HttpGet ''https://cdn.example/ep1.mp3'', FileOpen (temp_path 1700000000),
          RemoveFile (temp_path 1700000000)]
   \<and> remove_ok (ex_env \<lparr> download := StreamRaises \<rparr>)
   \<and> temp_path 1700000000
       \<notin> files_after (process_episode ex_self (ex_env \<lparr> download := StreamRaises \<rparr>) {} ''Pod'' ex_entry)
   \<and> \<not> returned (process_episode ex_self (ex_env \<lparr> download := StreamRaises \<rparr>) {} ''Pod'' ex_entry)
   \<and> \<not> returned (process_episode ex_self (ex_env \<lparr> download := StreamRaises, remove_ok := False \<rparr>)
                    {} ''Pod'' ex_entry)"
proof -
  have c: "clock (ex_env \<lparr> download := StreamRaises \<rparr>) = 1700000000"
    and r: "remove_ok (ex_env \<lparr> download := StreamRaises \<rparr>)"
    by (simp_all add: ex_env_def)
  have fresh: "JStr (episode_identity ex_entry) \<notin> processed_episodes_cache ex_self"
    by (simp add: ex_self_def)
  have nr: "\<not> returned (process_episode ex_self (ex_env \<lparr> download := StreamRaises \<rparr>) {} ''Pod'' ex_entry)"
    by (simp add: process_returned ex_stream_failure)
  show ?thesis
    using temp_file_removed_on_every_exit
      [of ex_entry ex_self "ex_env \<lparr> download := StreamRaises \<rparr>" "{}" "''Pod''" False]
      fresh nr
    by (simp add: c r ex_stream_failure)
qed

text \<open>
  C9. An entry without a title has the identity \<open>Unknown\<close>. When such an entry is
  processed with success, the page created for it carries \<open>Unknown\<close> as its episode and
  \<open>Unknown\<close> is in the ledger afterwards; and whenever \<open>Unknown\<close> is in the ledger, from
  this run or loaded from the store, every entry without a title is skipped with no effect.
\<close>

theorem titleless_entries_share_identity:
  "entry_title entry = None \<and> entry_title entry' = None \<Longrightarrow>
     episode_identity entry = ''Unknown''
     \<and> (returned (process_episode self env files podcast_name entry) \<longrightarrow>
          JStr ''Unknown''
            \<in> processed_episodes_cache (self_after (process_episode self env files podcast_name entry))
          \<and> (\<exists>d. CreatePage d \<in> set (effects (process_episode self env files podcast_name entry))
                 \<and> prop_Episode d = ''Unknown'')
          \<and> process_episode (self_after (process_episode self env files podcast_name entry))
                env' files' podcast_name' entry'
              = \<lparr> effects = [], returned = False,
                  self_after = self_after (process_episode self env files podcast_name entry),
                  files_after = files' \<rparr>)
     \<and> (JStr ''Unknown'' \<in> processed_episodes_cache self' \<longrightarrow>
          process_episode self' env' files' podcast_name' entry'
            = \<lparr> effects = [], returned = False, self_after = self', files_after = files' \<rparr>)"
proof -
  assume t: "entry_title entry = None \<and> entry_title entry' = None"
  then have id: "episode_identity entry = ''Unknown''" "episode_identity entry' = ''Unknown''"
    by (simp_all add: episode_identity_def)
  have skip: "process_episode s env' files' podcast_name' entry'
            = \<lparr> effects = [], returned = False, self_after = s, files_after = files' \<rparr>"
    if "JStr ''Unknown'' \<in> processed_episodes_cache s" for s
    using that id(2) by (simp add: process_skip)
  {
    assume ret: "returned (process_episode self env files podcast_name entry)"
    then have fresh: "JStr (episode_identity entry) \<notin> processed_episodes_cache self"
      and tr: "returned (episode_try self env files podcast_name entry)"
      by (simp_all add: process_returned)
    from fresh tr have led: "JStr ''Unknown''
        \<in> processed_episodes_cache (self_after (process_episode self env files podcast_name entry))"
      by (simp add: process_self_after try_self_after id)
    from tr obtain audio_url summary transcript where
      "audio_url_of entry = Inr (Some audio_url)" "audio_url \<noteq> []" "download env = Downloaded"
      "snd (transcribe_with_retry (gemini env) (temp_path (clock env)) 5)
         = Inr (Some (summary, transcript))"
      by (auto simp: try_returned_iff)
    from try_effects_notion [OF this, of self podcast_name files]
      add_to_notion_events [of self "store env" podcast_name "episode_identity entry"
        "case entry_published entry of None \<Rightarrow> [] | Some d \<Rightarrow> d" summary transcript]
    have "CreatePage (make_create_data self (store env) podcast_name (episode_identity entry)
        (case entry_published entry of None \<Rightarrow> [] | Some d \<Rightarrow> d) summary transcript)
        \<in> set (effects (episode_try self env files podcast_name entry))"
      by auto
    with fresh have "\<exists>d. CreatePage d \<in> set (effects (process_episode self env files podcast_name entry))
                 \<and> prop_Episode d = ''Unknown''"
      by (auto simp: process_effects make_create_data_def id
               intro!: exI [of _ "make_create_data self (store env) podcast_name (episode_identity entry)
        (case entry_published entry of None \<Rightarrow> [] | Some d \<Rightarrow> d) summary transcript"])
    note led this skip [OF led]
  }
  with id(1) skip show ?thesis by blast
qed

theorem titleless_entries_share_identity_witness:
  "entry_title ex_titleless = None
   \<and> returned (process_episode ex_self ex_env {} ''Pod'' ex_titleless)
   \<and> processed_episodes_cache (self_after (process_episode ex_self ex_env {} ''Pod'' ex_titleless))
       = {JStr ''Unknown''}
   \<and> process_episode (self_after (process_episode ex_self ex_env {} ''Pod'' ex_titleless))
         ex_env {} ''Other podcast'' (ex_titleless \<lparr> entry_published := None \<rparr>)
       = \<lparr> effects = [], returned = False,
           self_after = self_after (process_episode ex_self ex_env {} ''Pod'' ex_titleless),
           files_after = {} \<rparr>"
proof -
  have t: "entry_title ex_titleless = None"
    "entry_title (ex_titleless \<lparr> entry_published := None \<rparr>) = None"
    by (simp_all add: ex_titleless_def)
  have fresh: "JStr (episode_identity ex_titleless) \<notin> processed_episodes_cache ex_self"
    by (simp add: ex_self_def)
  have ok: "returned (process_episode ex_self ex_env {} ''Pod'' ex_titleless)"
    by (simp add: process_returned fresh ex_try_returned)
  have led: "processed_episodes_cache (self_after (process_episode ex_self ex_env {} ''Pod'' ex_titleless))
       = {JStr ''Unknown''}"
    using fresh by (simp add: process_self_after try_self_after ex_try_returned ex_identity)
       (simp add: ex_self_def)
  from t ok led show ?thesis
    using titleless_entries_share_identity
      [of ex_titleless "ex_titleless \<lparr> entry_published := None \<rparr>" ex_self ex_env "{}" "''Pod''"
          ex_env "{}" "''Other podcast''"]
    by simp
qed

end
